theory Spec2Isabelle
  imports Complex_Main "HOL-Library.Word"
begin

unbundle bit_operations_syntax

section \<open>JavaScript numbers, as far as the bridge uses them\<close>

text \<open>
  The TypeScript sources compute on \<^verbatim>\<open>number\<close>. Every number the MCP2515 bridge
  handles is integer valued, so a number is an \<^typ>\<open>int\<close> here. The bitwise operators
  of JavaScript first convert each operand to a signed 32-bit integer (ToInt32); that
  conversion is written out. An array read beyond the end yields \<^verbatim>\<open>undefined\<close>,
  modelled as \<^term>\<open>None\<close>; in a bitwise operator and in a store to a typed array
  \<^verbatim>\<open>undefined\<close> counts as 0.
\<close>

definition toInt32 :: "int \<Rightarrow> int" where
  "toInt32 x = signed_take_bit 31 x"

definition js_and :: "int \<Rightarrow> int \<Rightarrow> int" where
  "js_and a b = toInt32 a AND toInt32 b"

definition js_or :: "int \<Rightarrow> int \<Rightarrow> int" where
  "js_or a b = toInt32 a OR toInt32 b"

definition js_shl :: "int \<Rightarrow> nat \<Rightarrow> int" where
  "js_shl a n = toInt32 (push_bit (n mod 32) (toInt32 a))"

definition js_sar :: "int \<Rightarrow> nat \<Rightarrow> int" where
  "js_sar a n = drop_bit (n mod 32) (toInt32 a)"

definition js_ushr :: "int \<Rightarrow> nat \<Rightarrow> int" where
  "js_ushr a n = drop_bit (n mod 32) (take_bit 32 a)"

definition toUint8 :: "int \<Rightarrow> 8 word" where
  "toUint8 x = word_of_int x"

definition byte_at :: "8 word list \<Rightarrow> nat \<Rightarrow> int option" where
  "byte_at xs i = (if i < length xs then Some (uint (xs ! i)) else None)"

definition num :: "int option \<Rightarrow> int" where
  "num v = (case v of None \<Rightarrow> 0 | Some x \<Rightarrow> x)"

section \<open>The MCP2515 SPI engine (mcp\_decoder.ts)\<close>

text \<open>
  A CAN frame. The field \<^verbatim>\<open>id\<close> of the source is \<open>frame_id\<close> here. The payload
  is a list of octets: every producer of frames in the repository fills it from SPI
  bytes, from a copy of such a list, or from expressions masked with 0xFF.
\<close>

record CanFrame =
  frame_id :: int
  eid :: int
  dlc :: int
  data :: "8 word list"

record DecodeResult =
  rx :: "8 word"
  frame :: "CanFrame option"

abbreviation (input) INSTRUCTION_WRITE :: "8 word" where "INSTRUCTION_WRITE \<equiv> 0x02"
abbreviation (input) INSTRUCTION_READ :: "8 word" where "INSTRUCTION_READ \<equiv> 0x03"
abbreviation (input) INSTRUCTION_BIT_MODIFY :: "8 word" where "INSTRUCTION_BIT_MODIFY \<equiv> 0x05"
abbreviation (input) INSTRUCTION_READ_STATUS :: "8 word" where "INSTRUCTION_READ_STATUS \<equiv> 0xA0"

abbreviation (input) TXB0_SIDH :: "8 word" where "TXB0_SIDH \<equiv> 0x31"
abbreviation (input) RXB0_SIDH :: nat where "RXB0_SIDH \<equiv> 0x61"

abbreviation (input) CANINTE :: "8 word" where "CANINTE \<equiv> 0x2B"
abbreviation (input) CANINTF :: "8 word" where "CANINTF \<equiv> 0x2C"
abbreviation (input) TXB0CTRL :: "8 word" where "TXB0CTRL \<equiv> 0x30"
abbreviation (input) TXB1CTRL :: "8 word" where "TXB1CTRL \<equiv> 0x40"
abbreviation (input) TXB2CTRL :: "8 word" where "TXB2CTRL \<equiv> 0x50"

abbreviation (input) RX0IF :: "8 word" where "RX0IF \<equiv> 0x01"
abbreviation (input) TX0IF :: "8 word" where "TX0IF \<equiv> 0x04"

datatype State =
    IDLE
  | WRITE_ADDR
  | WRITE_DATA
  | TX_HEADER
  | TX_DATA
  | READ_ADDR
  | READ_DATA
  | BIT_MODIFY_ADDR
  | BIT_MODIFY_MASK
  | BIT_MODIFY_DATA
  | READ_STATUS_DUMMY

text \<open>
  The fields of class McpDecoder. The register file (a Uint8Array of 256 bytes) is a
  total function from the address byte to the stored byte. The two callbacks are
  foreign code and are modelled by what they do to the engine:
  \<^item> \<open>intPinChangeCallback\<close> is \<^term>\<open>None\<close> when no callback is installed, and
    otherwise holds the arguments of all its invocations so far, oldest first;
  \<^item> \<open>txFrameCallback\<close> is \<^term>\<open>None\<close> when no callback is installed, and
    otherwise the function from the emitted frame to the reply frames that the
    callback hands to \<open>queueRxFrames\<close> (as the bridge McpIO wires it: the replies of
    the CS3 handler, queued only when there is at least one).
\<close>

record McpDecoder =
  state :: State
  register :: "8 word"
  bitModifyMask :: "8 word"
  txHeader :: "8 word list"
  txData :: "8 word list"
  txDlc :: int
  registers :: "8 word \<Rightarrow> 8 word"
  txFrameCallback :: "(CanFrame \<Rightarrow> CanFrame list) option"
  intPinChangeCallback :: "bool list option"
  rxQueue :: "CanFrame list"
  intPinAsserted :: bool

definition McpDecoder_new :: McpDecoder where
  "McpDecoder_new =
     \<lparr> state = IDLE, register = 0, bitModifyMask = 0, txHeader = [], txData = [],
       txDlc = 0, registers = (\<lambda>_. 0), txFrameCallback = None,
       intPinChangeCallback = None, rxQueue = [], intPinAsserted = False \<rparr>"

definition setTxFrameCallback :: "McpDecoder \<Rightarrow> (CanFrame \<Rightarrow> CanFrame list) \<Rightarrow> McpDecoder" where
  "setTxFrameCallback s cb = s\<lparr>txFrameCallback := Some cb\<rparr>"

definition setIntPinChangeCallback :: "McpDecoder \<Rightarrow> McpDecoder" where
  "setIntPinChangeCallback s = s\<lparr>intPinChangeCallback := Some []\<rparr>"

definition shouldTriggerInterrupt :: "McpDecoder \<Rightarrow> bool" where
  "shouldTriggerInterrupt s \<longleftrightarrow> (registers s CANINTF AND registers s CANINTE) \<noteq> 0"

definition updateIntPin :: "McpDecoder \<Rightarrow> McpDecoder" where
  "updateIntPin s =
     (let shouldAssert = shouldTriggerInterrupt s in
      if shouldAssert \<noteq> intPinAsserted s
      then s\<lparr>intPinAsserted := shouldAssert,
             intPinChangeCallback :=
               (case intPinChangeCallback s of
                  None \<Rightarrow> None
                | Some calls \<Rightarrow> Some (calls @ [shouldAssert]))\<rparr>
      else s)"

text \<open>
  A store to \<open>registers[i]\<close> where the index is computed without the mask 0xFF: a
  typed array ignores a store beyond its length.
\<close>

definition storeReg :: "(8 word \<Rightarrow> 8 word) \<Rightarrow> nat \<Rightarrow> 8 word \<Rightarrow> (8 word \<Rightarrow> 8 word)" where
  "storeReg regs i v = (if i < 256 then regs(of_nat i := v) else regs)"

definition loadData :: "(8 word \<Rightarrow> 8 word) \<Rightarrow> CanFrame \<Rightarrow> (8 word \<Rightarrow> 8 word)" where
  "loadData regs f =
     foldl (\<lambda>r i. storeReg r (RXB0_SIDH + 5 + i) (toUint8 (num (byte_at (data f) i))))
       regs [0 ..< nat (dlc f)]"

definition loadHeader :: "(8 word \<Rightarrow> 8 word) \<Rightarrow> CanFrame \<Rightarrow> (8 word \<Rightarrow> 8 word)" where
  "loadHeader regs f =
     (let r0 = storeReg regs RXB0_SIDH (toUint8 (js_and (js_sar (frame_id f) 3) 0xFF));
          r1 = storeReg r0 (RXB0_SIDH + 1)
                 (toUint8 (js_or (js_or (js_shl (js_and (frame_id f) 0x07) 5) 0x08)
                                 (js_and (js_sar (eid f) 16) 0x03)));
          r2 = storeReg r1 (RXB0_SIDH + 2) (toUint8 (js_and (js_sar (eid f) 8) 0xFF));
          r3 = storeReg r2 (RXB0_SIDH + 3) (toUint8 (js_and (eid f) 0xFF));
          r4 = storeReg r3 (RXB0_SIDH + 4) (toUint8 (dlc f))
      in r4)"

definition loadFrameToRxb0 :: "McpDecoder \<Rightarrow> CanFrame \<Rightarrow> McpDecoder" where
  "loadFrameToRxb0 s f =
     (let r5 = loadData (loadHeader (registers s) f) f;
          r6 = r5(CANINTF := r5 CANINTF OR RX0IF)
      in updateIntPin (s\<lparr>registers := r6\<rparr>))"

definition tryLoadNextRxFrame :: "McpDecoder \<Rightarrow> McpDecoder" where
  "tryLoadNextRxFrame s =
     (if registers s CANINTF AND RX0IF = 0 \<and> rxQueue s \<noteq> []
      then loadFrameToRxb0 (s\<lparr>rxQueue := tl (rxQueue s)\<rparr>) (hd (rxQueue s))
      else s)"

definition queueRxFrames :: "McpDecoder \<Rightarrow> CanFrame list \<Rightarrow> McpDecoder" where
  "queueRxFrames s frames = tryLoadNextRxFrame (s\<lparr>rxQueue := rxQueue s @ frames\<rparr>)"

definition setRegister :: "McpDecoder \<Rightarrow> 8 word \<Rightarrow> 8 word \<Rightarrow> McpDecoder" where
  "setRegister s addr v = s\<lparr>registers := (registers s)(addr := v)\<rparr>"

definition getRegister :: "McpDecoder \<Rightarrow> 8 word \<Rightarrow> 8 word" where
  "getRegister s addr = registers s addr"

definition isInstruction :: "8 word \<Rightarrow> bool" where
  "isInstruction b \<longleftrightarrow>
     b = INSTRUCTION_WRITE \<or> b = INSTRUCTION_READ \<or> b = INSTRUCTION_BIT_MODIFY
     \<or> b = INSTRUCTION_READ_STATUS"

definition noFrame :: "8 word \<Rightarrow> DecodeResult" where
  "noFrame v = \<lparr> rx = v, frame = None \<rparr>"

definition handleInstruction :: "McpDecoder \<Rightarrow> 8 word \<Rightarrow> DecodeResult \<times> McpDecoder" where
  "handleInstruction s txByte =
     (noFrame 0,
      if txByte = INSTRUCTION_WRITE then s\<lparr>state := WRITE_ADDR\<rparr>
      else if txByte = INSTRUCTION_READ then s\<lparr>state := READ_ADDR\<rparr>
      else if txByte = INSTRUCTION_BIT_MODIFY then s\<lparr>state := BIT_MODIFY_ADDR\<rparr>
      else if txByte = INSTRUCTION_READ_STATUS then s\<lparr>state := READ_STATUS_DUMMY\<rparr>
      else s)"

definition bitOf :: "8 word \<Rightarrow> nat \<Rightarrow> 8 word" where
  "bitOf v n = drop_bit n v AND 1"

definition computeStatus :: "McpDecoder \<Rightarrow> 8 word" where
  "computeStatus s =
     (let canintf = registers s CANINTF in
        bitOf canintf 0
        OR push_bit 1 (bitOf canintf 1)
        OR push_bit 2 (bitOf (registers s TXB0CTRL) 3)
        OR push_bit 3 (bitOf canintf 2)
        OR push_bit 4 (bitOf (registers s TXB1CTRL) 3)
        OR push_bit 5 (bitOf canintf 3)
        OR push_bit 6 (bitOf (registers s TXB2CTRL) 3)
        OR push_bit 7 (bitOf canintf 4))"

definition txFrame :: "McpDecoder \<Rightarrow> CanFrame" where
  "txFrame s =
     (let sidh = num (byte_at (txHeader s) 0);
          sidl = num (byte_at (txHeader s) 1);
          eid8 = num (byte_at (txHeader s) 2);
          eid0 = num (byte_at (txHeader s) 3)
      in \<lparr> frame_id = js_or (js_shl sidh 3) (js_and (js_sar sidl 5) 0x07),
           eid = js_or (js_or (js_shl (js_and sidl 0x03) 16) (js_shl eid8 8)) eid0,
           dlc = txDlc s,
           data = txData s \<rparr>)"

definition emitCanFrame :: "McpDecoder \<Rightarrow> CanFrame \<times> McpDecoder" where
  "emitCanFrame s =
     (let f = txFrame s;
          s1 = s\<lparr>registers := (registers s)(CANINTF := registers s CANINTF OR TX0IF)\<rparr>;
          s2 = updateIntPin s1;
          s3 = (case txFrameCallback s2 of
                  None \<Rightarrow> s2
                | Some cb \<Rightarrow> (if cb f \<noteq> [] then queueRxFrames s2 (cb f) else s2))
      in (f, s3\<lparr>state := IDLE\<rparr>))"

definition emitResult :: "McpDecoder \<Rightarrow> DecodeResult \<times> McpDecoder" where
  "emitResult s = (case emitCanFrame s of (f, s') \<Rightarrow> (\<lparr> rx = 0, frame = Some f \<rparr>, s'))"

definition decode_WRITE_DATA :: "McpDecoder \<Rightarrow> 8 word \<Rightarrow> DecodeResult \<times> McpDecoder" where
  "decode_WRITE_DATA s txByte =
     (if isInstruction txByte then handleInstruction s txByte
      else
        let s1 = s\<lparr>registers := (registers s)(register s := txByte)\<rparr>;
            s2 = (if register s1 = TXB0CTRL \<and> txByte AND 0x08 \<noteq> 0
                  then s1\<lparr>registers := (registers s1)(TXB0CTRL := registers s1 TXB0CTRL AND NOT 0x08)\<rparr>
                  else s1);
            s3 = (if register s2 = CANINTF then tryLoadNextRxFrame (updateIntPin s2) else s2)
        in (noFrame 0, s3\<lparr>register := register s3 + 1\<rparr>))"

definition decode_TX_HEADER :: "McpDecoder \<Rightarrow> 8 word \<Rightarrow> DecodeResult \<times> McpDecoder" where
  "decode_TX_HEADER s txByte =
     (let s1 = s\<lparr>registers := (registers s)(TXB0_SIDH + of_nat (length (txHeader s)) := txByte)\<rparr>;
          s2 = s1\<lparr>txHeader := txHeader s1 @ [txByte]\<rparr>
      in if length (txHeader s2) = 5
         then
           let s3 = s2\<lparr>txDlc := js_and (num (byte_at (txHeader s2) 4)) 0x0F\<rparr>
           in if txDlc s3 = 0 then emitResult s3
              else (noFrame 0, s3\<lparr>txData := [], state := TX_DATA\<rparr>)
         else (noFrame 0, s2))"

definition decode_TX_DATA :: "McpDecoder \<Rightarrow> 8 word \<Rightarrow> DecodeResult \<times> McpDecoder" where
  "decode_TX_DATA s txByte =
     (let s1 = s\<lparr>registers := (registers s)(TXB0_SIDH + 5 + of_nat (length (txData s)) := txByte)\<rparr>;
          s2 = s1\<lparr>txData := txData s1 @ [txByte]\<rparr>
      in if int (length (txData s2)) = txDlc s2 then emitResult s2
         else (noFrame 0, s2))"

definition decode_BIT_MODIFY_DATA :: "McpDecoder \<Rightarrow> 8 word \<Rightarrow> DecodeResult \<times> McpDecoder" where
  "decode_BIT_MODIFY_DATA s txByte =
     (let addr = register s;
          oldVal = registers s addr;
          s1 = s\<lparr>registers := (registers s)(addr :=
                  (oldVal AND NOT (bitModifyMask s)) OR (txByte AND bitModifyMask s))\<rparr>;
          s2 = (if addr = CANINTF then tryLoadNextRxFrame (updateIntPin s1) else s1)
      in (noFrame 0, s2\<lparr>state := IDLE\<rparr>))"

definition decode :: "McpDecoder \<Rightarrow> 8 word \<Rightarrow> DecodeResult \<times> McpDecoder" where
  "decode s txByte =
     (case state s of
        IDLE \<Rightarrow> handleInstruction s txByte
      | WRITE_ADDR \<Rightarrow>
          (noFrame 0,
           if txByte = TXB0_SIDH
           then s\<lparr>register := txByte, state := TX_HEADER, txHeader := []\<rparr>
           else s\<lparr>register := txByte, state := WRITE_DATA\<rparr>)
      | WRITE_DATA \<Rightarrow> decode_WRITE_DATA s txByte
      | TX_HEADER \<Rightarrow> decode_TX_HEADER s txByte
      | TX_DATA \<Rightarrow> decode_TX_DATA s txByte
      | READ_ADDR \<Rightarrow> (noFrame 0, s\<lparr>register := txByte, state := READ_DATA\<rparr>)
      | READ_DATA \<Rightarrow>
          (if isInstruction txByte then handleInstruction s txByte
           else (noFrame (registers s (register s)), s\<lparr>register := register s + 1\<rparr>))
      | BIT_MODIFY_ADDR \<Rightarrow> (noFrame 0, s\<lparr>register := txByte, state := BIT_MODIFY_MASK\<rparr>)
      | BIT_MODIFY_MASK \<Rightarrow> (noFrame 0, s\<lparr>bitModifyMask := txByte, state := BIT_MODIFY_DATA\<rparr>)
      | BIT_MODIFY_DATA \<Rightarrow> decode_BIT_MODIFY_DATA s txByte
      | READ_STATUS_DUMMY \<Rightarrow> (noFrame (computeStatus s), s\<lparr>state := IDLE\<rparr>))"

text \<open>Feeding a list of bytes, as the socket handler of the bridge does.\<close>

fun decodeAll :: "McpDecoder \<Rightarrow> 8 word list \<Rightarrow> McpDecoder" where
  "decodeAll s [] = s"
| "decodeAll s (b # bs) = decodeAll (snd (decode s b)) bs"

section \<open>The CS3 command dispatcher (cs3\_handler.ts)\<close>

text \<open>
  The controller of the simulation is foreign code. It is modelled by the calls it
  receives: \<open>controller\<close> is \<^term>\<open>None\<close> when no controller is attached (the
  stand-alone bridge), and otherwise holds the calls made so far, oldest first.
\<close>

datatype SwitchDirection = Straight | Curve

datatype ControllerCall =
    Stop
  | Go
  | Halt
  | SetTrainSpeed int int bool
  | ReverseTrain int
  | ChangeSwitchDirection int SwitchDirection

record Cs3Handler =
  controller :: "ControllerCall list option"
  trainLights :: "int \<rightharpoonup> bool"

record HandleResult =
  immediate :: "CanFrame list"
  delayed :: "CanFrame list"

abbreviation (input) SYSTEM_CMD :: int where "SYSTEM_CMD \<equiv> 0x00"
abbreviation (input) SPEED_CMD :: int where "SPEED_CMD \<equiv> 0x04"
abbreviation (input) DIRECTION_CMD :: int where "DIRECTION_CMD \<equiv> 0x05"
abbreviation (input) LIGHT_CMD :: int where "LIGHT_CMD \<equiv> 0x06"
abbreviation (input) SWITCH_CMD :: int where "SWITCH_CMD \<equiv> 0x0B"
abbreviation (input) CS3_MAX_SPEED :: int where "CS3_MAX_SPEED \<equiv> 1000"
abbreviation (input) SIM_MAX_SPEED :: int where "SIM_MAX_SPEED \<equiv> 14"

definition decodeCommand :: "CanFrame \<Rightarrow> int" where
  "decodeCommand f = js_or (js_and (js_shl (frame_id f) 1) 0xFE) (js_and (js_sar (eid f) 17) 0x01)"

definition makeAck :: "CanFrame \<Rightarrow> CanFrame" where
  "makeAck f = \<lparr> frame_id = frame_id f, eid = js_or (eid f) 0x10000, dlc = dlc f, data = data f \<rparr>"

definition readId :: "8 word list \<Rightarrow> int" where
  "readId d =
     js_ushr (js_or (js_or (js_or (js_shl (num (byte_at d 0)) 24) (js_shl (num (byte_at d 1)) 16))
                           (js_shl (num (byte_at d 2)) 8))
                    (num (byte_at d 3))) 0"

text \<open>
  \<open>Math.round(x)\<close> is the integer nearest to \<open>x\<close>, a tie going upwards, which is
  \<^const>\<open>round\<close>. The source divides and multiplies in double precision. For an
  integer speed strictly between 0 and 1000 the exact quotient \<open>14 * c / 1000\<close> is
  either a tie (only at 250 and 750, where every intermediate value is exact in binary)
  or at least 0.002 away from one, far more than the rounding error of two double
  operations, so rounding the exact quotient gives the same integer.
\<close>

definition cs3SpeedToSim :: "int \<Rightarrow> int" where
  "cs3SpeedToSim cs3Speed =
     (if cs3Speed \<le> 0 then 0
      else if cs3Speed \<ge> CS3_MAX_SPEED then SIM_MAX_SPEED
      else round ((real_of_int cs3Speed / real_of_int CS3_MAX_SPEED) * real_of_int SIM_MAX_SPEED))"

definition decodeSwitchId :: "int \<Rightarrow> int" where
  "decodeSwitchId encodedId = encodedId - 0x3000 + 1"

definition callController :: "Cs3Handler \<Rightarrow> ControllerCall \<Rightarrow> Cs3Handler" where
  "callController h c =
     (case controller h of
        None \<Rightarrow> h
      | Some calls \<Rightarrow> h\<lparr>controller := Some (calls @ [c])\<rparr>)"

definition ackOnly :: "CanFrame \<Rightarrow> HandleResult" where
  "ackOnly ack = \<lparr> immediate = [ack], delayed = [] \<rparr>"

definition handleSystem :: "Cs3Handler \<Rightarrow> CanFrame \<Rightarrow> CanFrame \<Rightarrow> HandleResult \<times> Cs3Handler" where
  "handleSystem h f ack =
     (let subcmd = byte_at (data f) 4
      in (ackOnly ack,
          if subcmd = Some 0x00 then callController h Stop
          else if subcmd = Some 0x01 then callController h Go
          else if subcmd = Some 0x02 then callController h Halt
          else h))"

definition handleSpeed :: "Cs3Handler \<Rightarrow> CanFrame \<Rightarrow> CanFrame \<Rightarrow> HandleResult \<times> Cs3Handler" where
  "handleSpeed h f ack =
     (let trainId = readId (data f)
      in if dlc f \<le> 4 then (ackOnly ack, h)
         else
           let cs3Speed = js_or (js_shl (num (byte_at (data f) 4)) 8) (num (byte_at (data f) 5));
               simSpeed = cs3SpeedToSim cs3Speed;
               light = (case trainLights h trainId of None \<Rightarrow> False | Some l \<Rightarrow> l)
           in (ackOnly ack, callController h (SetTrainSpeed trainId simSpeed light)))"

definition handleDirection :: "Cs3Handler \<Rightarrow> CanFrame \<Rightarrow> CanFrame \<Rightarrow> HandleResult \<times> Cs3Handler" where
  "handleDirection h f ack =
     (let trainId = readId (data f)
      in (ackOnly ack, callController h (ReverseTrain trainId)))"

definition handleLight :: "Cs3Handler \<Rightarrow> CanFrame \<Rightarrow> CanFrame \<Rightarrow> HandleResult \<times> Cs3Handler" where
  "handleLight h f ack =
     (let trainId = readId (data f);
          on = (byte_at (data f) 5 \<noteq> Some 0)
      in (ackOnly ack, h\<lparr>trainLights := (trainLights h)(trainId \<mapsto> on)\<rparr>))"

definition handleSwitch :: "Cs3Handler \<Rightarrow> CanFrame \<Rightarrow> CanFrame \<Rightarrow> HandleResult \<times> Cs3Handler" where
  "handleSwitch h f ack =
     (let encodedId = readId (data f);
          switchId = decodeSwitchId encodedId;
          position = byte_at (data f) 4;
          direction = (if position \<noteq> None \<and> position \<noteq> Some 0 then Straight else Curve)
      in (\<lparr> immediate = [ack], delayed = [ack] \<rparr>,
          callController h (ChangeSwitchDirection switchId direction)))"

definition handleTxFrame :: "Cs3Handler \<Rightarrow> CanFrame \<Rightarrow> HandleResult \<times> Cs3Handler" where
  "handleTxFrame h f =
     (let command = decodeCommand f;
          ack = makeAck f
      in if command = SYSTEM_CMD then handleSystem h f ack
         else if command = SPEED_CMD then handleSpeed h f ack
         else if command = DIRECTION_CMD then handleDirection h f ack
         else if command = LIGHT_CMD then handleLight h f ack
         else if command = SWITCH_CMD then handleSwitch h f ack
         else (ackOnly ack, h))"

section \<open>Notions used to state the properties\<close>

text \<open>
  A READ\_STATUS transaction: the instruction byte 0xA0 followed by one dummy byte;
  the result is the byte returned for the dummy.
\<close>

definition readStatus :: "McpDecoder \<Rightarrow> 8 word \<Rightarrow> 8 word" where
  "readStatus s dummy = rx (fst (decode (snd (decode s INSTRUCTION_READ_STATUS)) dummy))"

text \<open>
  The inverse of the RXB0 layout. The source has no such function; this one follows
  the wording of the specification: with \<open>B i\<close> the register byte at RXB0SIDH + i,
  \<open>id = (B0 << 3) | ((B1 >> 5) & 7)\<close>, \<open>eid = ((B1 & 3) << 16) | (B2 << 8) | B3\<close>,
  \<open>dlc = B4\<close>, and the data are the \<open>dlc\<close> bytes from B5 on.
\<close>

definition rxb0Decode :: "(8 word \<Rightarrow> 8 word) \<Rightarrow> CanFrame" where
  "rxb0Decode regs =
     (let B = (\<lambda>i. uint (regs (of_nat (RXB0_SIDH + i))))
      in \<lparr> frame_id = push_bit 3 (B 0) OR (drop_bit 5 (B 1) AND 7),
           eid = push_bit 16 (B 1 AND 3) OR push_bit 8 (B 2) OR B 3,
           dlc = B 4,
           data = map (\<lambda>i. regs (of_nat (RXB0_SIDH + 5 + i))) [0 ..< nat (B 4)] \<rparr>)"

text \<open>
  The arguments of the invocations of the interrupt-change callback made while
  \<open>decode\<close> processes the byte \<open>b\<close> in the state \<open>s\<close>, oldest first.
\<close>

definition intCalls :: "McpDecoder \<Rightarrow> 8 word \<Rightarrow> bool list" where
  "intCalls s b =
     (case (intPinChangeCallback s, intPinChangeCallback (snd (decode s b))) of
        (Some l, Some l') \<Rightarrow> drop (length l) l'
      | _ \<Rightarrow> [])"

text \<open>
  A run of the bridge in which the host enables the RX0 interrupt, two reply frames
  are queued (the first is loaded into RXB0 at once), and the host starts a WRITE
  to CANINTF. The next byte is the value written.
\<close>

definition frameA :: CanFrame where
  "frameA = \<lparr> frame_id = 5, eid = 0x30000, dlc = 5, data = [0, 0, 0x30, 0x00, 1] \<rparr>"

definition frameB :: CanFrame where
  "frameB = \<lparr> frame_id = 5, eid = 0x30000, dlc = 5, data = [0, 0, 0x30, 0x01, 0] \<rparr>"

definition twoQueued :: McpDecoder where
  "twoQueued =
     decodeAll
       (queueRxFrames
          (decodeAll (setIntPinChangeCallback McpDecoder_new) [0x02, 0x2B, 0x01])
          [frameA, frameB])
       [0x02, 0x2C]"

text \<open>
  The shape of the callback log after one byte, starting from the log \<open>l\<close>: nothing
  new, one report of the final state, or a de-assertion followed by an assertion.
\<close>

definition pinStep :: "bool list \<Rightarrow> McpDecoder \<Rightarrow> bool list \<Rightarrow> bool" where
  "pinStep l s' new \<longleftrightarrow>
     intPinChangeCallback s' = Some (l @ new)
     \<and> (new = [] \<or> new = [shouldTriggerInterrupt s']
          \<or> (new = [False, True] \<and> shouldTriggerInterrupt s'))
     \<and> (new \<noteq> [] \<longrightarrow> intPinAsserted s' = shouldTriggerInterrupt s')"

text \<open>
  The register file is mutated only by the engine itself: by \<open>decode\<close>, one call per
  byte of the SPI stream, and by \<open>queueRxFrames\<close>, called by the sensor poll between
  bytes. A run of the engine is a list of such operations.
\<close>

datatype Op = Decode "8 word" | QueueRx "CanFrame list"

fun step :: "McpDecoder \<Rightarrow> Op \<Rightarrow> McpDecoder" where
  "step s (Decode b) = snd (decode s b)"
| "step s (QueueRx frames) = queueRxFrames s frames"

definition run :: "McpDecoder \<Rightarrow> Op list \<Rightarrow> McpDecoder" where
  "run s ops = foldl step s ops"

text \<open>
  \<open>mirror regs base xs\<close>: the registers from \<open>base\<close> on hold the bytes \<open>xs\<close>.
\<close>

definition mirror :: "(8 word \<Rightarrow> 8 word) \<Rightarrow> 8 word \<Rightarrow> 8 word list \<Rightarrow> bool" where
  "mirror regs base xs \<longleftrightarrow> map (\<lambda>i. regs (base + of_nat i)) [0 ..< length xs] = xs"

text \<open>
  The invariant of the TX path: while a frame is being accumulated, the register
  file mirrors the accumulators, and in TX\_DATA the expected length is the low
  nibble of the fifth header byte and has not been reached yet.
\<close>

definition txInv :: "McpDecoder \<Rightarrow> bool" where
  "txInv s \<longleftrightarrow>
     (state s = TX_HEADER \<longrightarrow>
        length (txHeader s) < 5 \<and> mirror (registers s) TXB0_SIDH (txHeader s))
   \<and> (state s = TX_DATA \<longrightarrow>
        length (txHeader s) = 5 \<and> mirror (registers s) TXB0_SIDH (txHeader s)
      \<and> txDlc s = uint (txHeader s ! 4 AND 0x0F)
      \<and> int (length (txData s)) < txDlc s
      \<and> mirror (registers s) (TXB0_SIDH + 5) (txData s))"

text \<open>What holds of the engine state right after a frame has been emitted.\<close>

definition emitPost :: "McpDecoder \<Rightarrow> bool" where
  "emitPost s \<longleftrightarrow>
     length (txHeader s) = 5
   \<and> mirror (registers s) TXB0_SIDH (txHeader s)
   \<and> txDlc s = uint (txHeader s ! 4 AND 0x0F)
   \<and> (txDlc s = 0
        \<or> int (length (txData s)) = txDlc s \<and> mirror (registers s) (TXB0_SIDH + 5) (txData s))"

section \<open>The bits of the JavaScript operators\<close>

lemma bit_toInt32: "bit (toInt32 x) n \<longleftrightarrow> bit x (min 31 n)"
  by (simp add: toInt32_def bit_signed_take_bit_iff)

lemma bit_js_and: "bit (js_and a b) n \<longleftrightarrow> bit a (min 31 n) \<and> bit b (min 31 n)"
  by (simp add: js_and_def bit_and_iff bit_toInt32)

lemma bit_js_or: "bit (js_or a b) n \<longleftrightarrow> bit a (min 31 n) \<or> bit b (min 31 n)"
  by (simp add: js_or_def bit_or_iff bit_toInt32)

lemma bit_js_shl: "k < 32 \<Longrightarrow> bit (js_shl a k) n \<longleftrightarrow> k \<le> min 31 n \<and> bit a (min 31 n - k)"
proof -
  assume "k < 32"
  then have "min 31 (min 31 n - k) = min 31 n - k" by simp
  with \<open>k < 32\<close> show ?thesis
    by (simp add: js_shl_def bit_toInt32 bit_push_bit_iff)
qed

lemma bit_js_sar: "k < 32 \<Longrightarrow> bit (js_sar a k) n \<longleftrightarrow> bit a (min 31 (n + k))"
  by (simp add: js_sar_def bit_drop_bit_eq bit_toInt32 add.commute)

lemma bit_js_ushr0: "bit (js_ushr a 0) n \<longleftrightarrow> n < 32 \<and> bit a n"
  by (simp add: js_ushr_def bit_take_bit_iff)

lemma bit_uint8: "bit (uint (w :: 8 word)) n \<longleftrightarrow> n < 8 \<and> bit w n"
  by (auto simp add: bit_uint_iff dest: bit_imp_le_length)

lemmas js_bits = bit_js_and bit_js_or bit_js_shl bit_js_sar bit_js_ushr0 bit_uint8

lemma readId_cat:
  "readId (a # b # c # d # r) = push_bit 24 (uint a) OR push_bit 16 (uint b) OR push_bit 8 (uint c) OR uint d"
proof (rule bit_eqI)
  fix n
  show "bit (readId (a # b # c # d # r)) n \<longleftrightarrow>
        bit (push_bit 24 (uint a) OR push_bit 16 (uint b) OR push_bit 8 (uint c) OR uint d) n"
  proof (cases "n < 32")
    case True
    then have "min 31 n = n" by simp
    then show ?thesis
      by (simp add: readId_def byte_at_def num_def js_bits bit_or_iff bit_push_bit_iff) auto
  next
    case False
    then show ?thesis
      by (auto simp add: readId_def js_bits bit_or_iff bit_push_bit_iff)
  qed
qed

lemma be32_add:
  "push_bit 24 (uint (a::8 word)) OR push_bit 16 (uint (b::8 word)) OR push_bit 8 (uint (c::8 word)) OR uint (d::8 word)
   = uint a * 2 ^ 24 + uint b * 2 ^ 16 + uint c * 2 ^ 8 + uint d"
proof -
  have 1: "push_bit 8 (uint c) OR uint d = push_bit 8 (uint c) + uint d"
    by (rule disjunctive_add [symmetric]) (auto simp: bit_push_bit_iff bit_uint8)
  have 2: "push_bit 16 (uint b) OR (push_bit 8 (uint c) OR uint d) = push_bit 16 (uint b) + (push_bit 8 (uint c) OR uint d)"
    by (rule disjunctive_add [symmetric]) (auto simp: bit_push_bit_iff bit_uint8 bit_or_iff)
  have 3: "push_bit 24 (uint a) OR (push_bit 16 (uint b) OR (push_bit 8 (uint c) OR uint d))
     = push_bit 24 (uint a) + (push_bit 16 (uint b) OR (push_bit 8 (uint c) OR uint d))"
    by (rule disjunctive_add [symmetric]) (auto simp: bit_push_bit_iff bit_uint8 bit_or_iff)
  have "push_bit 24 (uint a) OR push_bit 16 (uint b) OR push_bit 8 (uint c) OR uint d
      = push_bit 24 (uint a) + (push_bit 16 (uint b) OR (push_bit 8 (uint c) OR uint d))"
    by (simp only: or.assoc 3)
  also have "\<dots> = push_bit 24 (uint a) + (push_bit 16 (uint b) + (push_bit 8 (uint c) OR uint d))"
    by (simp only: 2)
  also have "\<dots> = push_bit 24 (uint a) + (push_bit 16 (uint b) + (push_bit 8 (uint c) + uint d))"
    by (simp only: 1)
  finally show ?thesis
    by (simp add: push_bit_eq_mult)
qed

section \<open>Registers: READ\_STATUS, WRITE and BIT\_MODIFY on TXB0CTRL\<close>

lemmas mcp_defs = McpDecoder_new_def decode_def decode_WRITE_DATA_def decode_TX_HEADER_def
  decode_TX_DATA_def decode_BIT_MODIFY_DATA_def handleInstruction_def isInstruction_def
  noFrame_def setRegister_def Let_def

lemma bit3_and8: "bit (x::8 word) 3 \<longleftrightarrow> x AND 8 \<noteq> 0"
  using and_exp_eq_0_iff_not_bit[of x 3] by simp

lemma bit_8_iff: "bit (8 :: 8 word) n \<longleftrightarrow> n = 3"
proof -
  have "(8 :: 8 word) = 2 ^ 3" by simp
  then show ?thesis by (simp only: bit_exp_iff) auto
qed

lemma bit_bitOf: "bit (push_bit m (bitOf v k)) n \<longleftrightarrow> n = m \<and> m < 8 \<and> bit v k"
  by (auto simp add: bitOf_def bit_simps bit_1_iff dest: bit_imp_le_length)

lemma bit_bitOf0: "bit (bitOf v k) n \<longleftrightarrow> n = 0 \<and> bit v k"
  using bit_bitOf [of 0 v k n] by simp

lemma bit_computeStatus: "bit (computeStatus s) n \<longleftrightarrow>
   (n = 0 \<and> bit (registers s CANINTF) 0) \<or> (n = 1 \<and> bit (registers s CANINTF) 1)
 \<or> (n = 2 \<and> bit (registers s TXB0CTRL) 3) \<or> (n = 3 \<and> bit (registers s CANINTF) 2)
 \<or> (n = 4 \<and> bit (registers s TXB1CTRL) 3) \<or> (n = 5 \<and> bit (registers s CANINTF) 3)
 \<or> (n = 6 \<and> bit (registers s TXB2CTRL) 3) \<or> (n = 7 \<and> bit (registers s CANINTF) 4)"
  unfolding computeStatus_def Let_def bit_or_iff bit_bitOf bit_bitOf0 by simp

lemma readStatus_eq:
  assumes "state s = IDLE \<or> state s = WRITE_DATA \<or> state s = READ_DATA"
  shows "readStatus s dummy = computeStatus s"
proof -
  have "snd (decode s INSTRUCTION_READ_STATUS) = s\<lparr>state := READ_STATUS_DUMMY\<rparr>"
    using assms by (auto simp add: decode_def decode_WRITE_DATA_def handleInstruction_def isInstruction_def)
  then show ?thesis
    by (simp add: readStatus_def decode_def noFrame_def computeStatus_def)
qed

text \<open>
  Claim C4. The byte returned by READ\_STATUS (instruction 0xA0, answered on the
  following byte) carries, for every content of the register file, CANINTF.RX0IF in
  bit 0, CANINTF.RX1IF in bit 1, bit 3 of TXB0CTRL in bit 2, CANINTF.TX0IF in bit 3,
  bit 3 of TXB1CTRL in bit 4, CANINTF.TX1IF in bit 5, bit 3 of TXB2CTRL in bit 6 and
  CANINTF.TX2IF in bit 7. In particular, once bit 3 of TXB1CTRL and of TXB2CTRL has
  been set directly, the byte has bits 4 and 6 set. The instruction is accepted in
  the states that dispatch instructions: IDLE, WRITE\_DATA and READ\_DATA.
\<close>

theorem READ_STATUS_layout:
  assumes "state s = IDLE \<or> state s = WRITE_DATA \<or> state s = READ_DATA"
  shows "(bit (readStatus s dummy) 0 \<longleftrightarrow> bit (registers s CANINTF) 0)
       \<and> (bit (readStatus s dummy) 1 \<longleftrightarrow> bit (registers s CANINTF) 1)
       \<and> (bit (readStatus s dummy) 2 \<longleftrightarrow> bit (registers s TXB0CTRL) 3)
       \<and> (bit (readStatus s dummy) 3 \<longleftrightarrow> bit (registers s CANINTF) 2)
       \<and> (bit (readStatus s dummy) 4 \<longleftrightarrow> bit (registers s TXB1CTRL) 3)
       \<and> (bit (readStatus s dummy) 5 \<longleftrightarrow> bit (registers s CANINTF) 3)
       \<and> (bit (readStatus s dummy) 6 \<longleftrightarrow> bit (registers s TXB2CTRL) 3)
       \<and> (bit (readStatus s dummy) 7 \<longleftrightarrow> bit (registers s CANINTF) 4)
       \<and> (bit v1 3 \<and> bit v2 3 \<longrightarrow>
            bit (readStatus (setRegister (setRegister s TXB1CTRL v1) TXB2CTRL v2) dummy) 4
          \<and> bit (readStatus (setRegister (setRegister s TXB1CTRL v1) TXB2CTRL v2) dummy) 6)"
proof -
  have st: "state (setRegister (setRegister s TXB1CTRL v1) TXB2CTRL v2) = state s"
    by (simp add: setRegister_def)
  show ?thesis
    using assms by (simp add: readStatus_eq st bit_computeStatus) (simp add: setRegister_def)
qed

theorem READ_STATUS_layout_witness:
  "(state McpDecoder_new = IDLE \<or> state McpDecoder_new = WRITE_DATA \<or> state McpDecoder_new = READ_DATA)
   \<and> bit (8 :: 8 word) 3
   \<and> readStatus (setRegister (setRegister McpDecoder_new TXB1CTRL 8) TXB2CTRL 8) 0 = 0x50
   \<and> bit (0x50 :: 8 word) 4 \<and> bit (0x50 :: 8 word) 6"
  using READ_STATUS_layout [of McpDecoder_new 0 8 8]
  by (simp add: readStatus_def mcp_defs computeStatus_def bitOf_def)

text \<open>
  Claim C7. When a data byte of a WRITE transaction is stored at TXB0CTRL (0x30) and
  has bit 3 (TXREQ) set, then right after that byte the stored TXB0CTRL has bit 3
  clear and agrees with the written byte on every other bit.
\<close>

theorem TXB0CTRL_write_clears_TXREQ:
  assumes "state s = WRITE_DATA" and "register s = TXB0CTRL" and "bit txByte 3"
  shows "registers (snd (decode s txByte)) TXB0CTRL = txByte AND NOT 0x08
       \<and> \<not> bit (registers (snd (decode s txByte)) TXB0CTRL) 3
       \<and> (\<forall>n. n \<noteq> 3 \<longrightarrow> bit (registers (snd (decode s txByte)) TXB0CTRL) n = bit txByte n)"
proof -
  have "\<not> isInstruction txByte"
    using assms(3) by (auto simp: isInstruction_def)
  moreover have "txByte AND 8 \<noteq> 0"
    using assms(3) by (simp add: bit3_and8)
  ultimately have "registers (snd (decode s txByte)) TXB0CTRL = txByte AND NOT 0x08"
    using assms(1,2) by (simp add: decode_def decode_WRITE_DATA_def Let_def)
  moreover have "bit (txByte AND NOT 8) n \<longleftrightarrow> bit txByte n \<and> n \<noteq> 3" for n
    unfolding bit_and_iff bit_not_iff bit_8_iff by (auto dest: bit_imp_le_length)
  ultimately show ?thesis
    by (simp only:) simp
qed

theorem TXB0CTRL_write_clears_TXREQ_witness:
  "state (decodeAll McpDecoder_new [0x02, 0x30]) = WRITE_DATA
   \<and> register (decodeAll McpDecoder_new [0x02, 0x30]) = TXB0CTRL
   \<and> bit (0x0B :: 8 word) 3
   \<and> registers (snd (decode (decodeAll McpDecoder_new [0x02, 0x30]) 0x0B)) TXB0CTRL = 0x03"
  using TXB0CTRL_write_clears_TXREQ [of "decodeAll McpDecoder_new [0x02, 0x30]" "0x0B"]
  by (simp add: mcp_defs)

text \<open>
  Claim C10. The data byte of a BIT\_MODIFY transaction on TXB0CTRL (0x30) stores
  exactly \<open>(old AND NOT mask) OR (data AND mask)\<close>, with no further change: when mask
  and data both have bit 3 set, the stored TXB0CTRL keeps bit 3 set. The clearing
  of TXREQ belongs to the WRITE path alone.
\<close>

theorem BIT_MODIFY_keeps_TXREQ:
  assumes "state s = BIT_MODIFY_DATA" and "register s = TXB0CTRL"
  shows "registers (snd (decode s txByte)) TXB0CTRL =
           (registers s TXB0CTRL AND NOT (bitModifyMask s)) OR (txByte AND bitModifyMask s)
       \<and> (bit (bitModifyMask s) 3 \<and> bit txByte 3 \<longrightarrow>
            bit (registers (snd (decode s txByte)) TXB0CTRL) 3)"
  using assms by (simp add: decode_def decode_BIT_MODIFY_DATA_def Let_def bit_simps)

theorem BIT_MODIFY_keeps_TXREQ_witness:
  "state (decodeAll McpDecoder_new [0x05, 0x30, 0x08]) = BIT_MODIFY_DATA
   \<and> register (decodeAll McpDecoder_new [0x05, 0x30, 0x08]) = TXB0CTRL
   \<and> bit (bitModifyMask (decodeAll McpDecoder_new [0x05, 0x30, 0x08])) 3
   \<and> bit (0x08 :: 8 word) 3
   \<and> registers (snd (decode (decodeAll McpDecoder_new [0x05, 0x30, 0x08]) 0x08)) TXB0CTRL = 0x08"
  using BIT_MODIFY_keeps_TXREQ [of "decodeAll McpDecoder_new [0x05, 0x30, 0x08]" "0x08"]
  by (simp add: mcp_defs)

section \<open>The CS3 dispatcher\<close>

lemma be16:
  "js_or (js_shl (uint (hi :: 8 word)) 8) (uint (lo :: 8 word)) = uint hi * 256 + uint lo"
proof -
  have "js_or (js_shl (uint hi) 8) (uint lo) = push_bit 8 (uint hi) OR uint lo"
  proof (rule bit_eqI)
    fix n
    show "bit (js_or (js_shl (uint hi) 8) (uint lo)) n \<longleftrightarrow> bit (push_bit 8 (uint hi) OR uint lo) n"
      by (cases "n < 32") (auto simp add: js_bits bit_or_iff bit_push_bit_iff min_def)
  qed
  also have "\<dots> = push_bit 8 (uint hi) + uint lo"
    by (rule disjunctive_add [symmetric]) (auto simp: bit_push_bit_iff bit_uint8)
  finally show ?thesis
    by (simp add: push_bit_eq_mult)
qed

lemma makeAck_bit16: "bit (eid (makeAck f)) 16"
  by (simp add: makeAck_def js_bits)

lemma toInt32_id: "- (2 ^ 31) \<le> x \<Longrightarrow> x < 2 ^ 31 \<Longrightarrow> toInt32 x = x"
  by (simp add: toInt32_def signed_take_bit_int_eq_self)

lemma makeAck_eid: "0 \<le> eid f \<Longrightarrow> eid f \<le> 0x3FFFF \<Longrightarrow> eid (makeAck f) = eid f OR 0x10000"
  by (simp add: makeAck_def js_or_def toInt32_id)

lemma readId_be32:
  "readId (a # b # c # d # r) = uint a * 2 ^ 24 + uint b * 2 ^ 16 + uint c * 2 ^ 8 + uint d"
  by (simp only: readId_cat be32_add)

lemma callController_Some: "controller h = Some calls \<Longrightarrow> callController h c = h\<lparr>controller := Some (calls @ [c])\<rparr>"
  by (simp add: callController_def)

lemma callController_None: "controller h = None \<Longrightarrow> callController h c = h"
  by (simp add: callController_def)

lemma byte_at_simps:
  "byte_at (a # r) 0 = Some (uint a)"
  "byte_at (a # b # r) 1 = Some (uint b)"
  "byte_at (a # b # c # r) 2 = Some (uint c)"
  "byte_at (a # b # c # d # r) 3 = Some (uint d)"
  "byte_at (a # b # c # d # e # r) 4 = Some (uint e)"
  "byte_at (a # b # c # d # e # g # r) 5 = Some (uint g)"
  by (simp_all add: byte_at_def)

text \<open>
  Claim C5. For a frame whose decoded command is 0x0B (SWITCH) and whose \<open>data[4]\<close>
  is 0 or 1, the dispatcher decodes the switch id as the 32-bit big-endian value of
  \<open>data[0..3]\<close> minus 0x3000 plus 1 (0x3000 gives 1, 0x3009 gives 10), calls the
  controller's set-switch operation with Straight for \<open>data[4] = 1\<close> and Curve for
  \<open>data[4] = 0\<close>, and returns exactly one immediate ACK and exactly one identical
  delayed ACK, the ACK being the input frame with bit 16 of eid set and the same id,
  dlc and data. Every other recognised command (SYSTEM, SPEED, DIRECTION, LIGHT)
  returns one immediate ACK and no delayed frame. The call reaches the controller
  when one is attached; without a controller the dispatcher state is unchanged.
\<close>

theorem SWITCH_dispatch:
  "(decodeCommand f = SWITCH_CMD \<and> data f = a # b # c # d # p # r \<and> (p = 0 \<or> p = 1) \<longrightarrow>
       fst (handleTxFrame h f) = \<lparr> immediate = [makeAck f], delayed = [makeAck f] \<rparr>
     \<and> (\<forall>calls. controller h = Some calls \<longrightarrow>
           snd (handleTxFrame h f) =
             h\<lparr>controller := Some (calls @
                 [ChangeSwitchDirection
                    (uint a * 2 ^ 24 + uint b * 2 ^ 16 + uint c * 2 ^ 8 + uint d - 0x3000 + 1)
                    (if p = 1 then Straight else Curve)])\<rparr>)
     \<and> (controller h = None \<longrightarrow> snd (handleTxFrame h f) = h))
   \<and> decodeSwitchId 0x3000 = 1 \<and> decodeSwitchId 0x3009 = 10
   \<and> frame_id (makeAck f) = frame_id f \<and> bit (eid (makeAck f)) 16
   \<and> (0 \<le> eid f \<and> eid f \<le> 0x3FFFF \<longrightarrow> eid (makeAck f) = eid f OR 0x10000)
   \<and> dlc (makeAck f) = dlc f \<and> data (makeAck f) = data f
   \<and> (decodeCommand f = SYSTEM_CMD \<or> decodeCommand f = SPEED_CMD
        \<or> decodeCommand f = DIRECTION_CMD \<or> decodeCommand f = LIGHT_CMD \<longrightarrow>
        fst (handleTxFrame h f) = \<lparr> immediate = [makeAck f], delayed = [] \<rparr>)"
proof -
  have sw: "fst (handleTxFrame h f) = \<lparr> immediate = [makeAck f], delayed = [makeAck f] \<rparr>
     \<and> snd (handleTxFrame h f) = callController h (ChangeSwitchDirection
                    (uint a * 2 ^ 24 + uint b * 2 ^ 16 + uint c * 2 ^ 8 + uint d - 0x3000 + 1)
                    (if p = 1 then Straight else Curve))"
    if "decodeCommand f = SWITCH_CMD" "data f = a # b # c # d # p # r" "p = 0 \<or> p = 1"
    using that
    by (auto simp add: handleTxFrame_def handleSwitch_def Let_def readId_cat be32_add
        decodeSwitchId_def byte_at_simps add.assoc)
  have others: "fst (handleTxFrame h f) = \<lparr> immediate = [makeAck f], delayed = [] \<rparr>"
    if "decodeCommand f = SYSTEM_CMD \<or> decodeCommand f = SPEED_CMD
        \<or> decodeCommand f = DIRECTION_CMD \<or> decodeCommand f = LIGHT_CMD"
    using that
    by (auto simp add: handleTxFrame_def handleSystem_def handleSpeed_def handleDirection_def
        handleLight_def ackOnly_def Let_def)
  have ack: "frame_id (makeAck f) = frame_id f" "dlc (makeAck f) = dlc f" "data (makeAck f) = data f"
    by (simp_all add: makeAck_def)
  show ?thesis
    using sw others ack makeAck_bit16 [of f] makeAck_eid [of f]
    by (simp add: decodeSwitchId_def callController_Some callController_None)
qed

theorem SWITCH_dispatch_witness:
  "decodeCommand \<lparr> frame_id = 5, eid = 0x20000, dlc = 5, data = [0, 0, 0x30, 0x09, 1] \<rparr> = SWITCH_CMD
   \<and> controller \<lparr> controller = Some [], trainLights = Map.empty \<rparr> = Some []
   \<and> handleTxFrame \<lparr> controller = Some [], trainLights = Map.empty \<rparr>
         \<lparr> frame_id = 5, eid = 0x20000, dlc = 5, data = [0, 0, 0x30, 0x09, 1] \<rparr>
       = (\<lparr> immediate = [\<lparr> frame_id = 5, eid = 0x30000, dlc = 5, data = [0, 0, 0x30, 0x09, 1] \<rparr>],
            delayed = [\<lparr> frame_id = 5, eid = 0x30000, dlc = 5, data = [0, 0, 0x30, 0x09, 1] \<rparr>] \<rparr>,
          \<lparr> controller = Some [ChangeSwitchDirection 10 Straight], trainLights = Map.empty \<rparr>)"
proof -
  have cmd: "decodeCommand \<lparr> frame_id = 5, eid = 0x20000, dlc = 5, data = [0, 0, 0x30, 0x09, 1] \<rparr> = SWITCH_CMD"
    by (simp add: decodeCommand_def js_or_def js_and_def js_shl_def js_sar_def toInt32_def)
  have ack: "makeAck \<lparr> frame_id = 5, eid = 0x20000, dlc = 5, data = [0, 0, 0x30, 0x09, 1] \<rparr>
      = \<lparr> frame_id = 5, eid = 0x30000, dlc = 5, data = [0, 0, 0x30, 0x09, 1] \<rparr>"
    by (simp add: makeAck_def js_or_def toInt32_def)
  show ?thesis
    using cmd SWITCH_dispatch [where f = "\<lparr> frame_id = 5, eid = 0x20000, dlc = 5, data = [0, 0, 0x30, 0x09, 1] \<rparr>"
        and a = 0 and b = 0 and c = "0x30" and d = "0x09" and p = 1 and r = "[]"
        and h = "\<lparr> controller = Some [], trainLights = Map.empty \<rparr>"]
    by (simp add: ack prod_eq_iff)
qed

text \<open>
  Claim C9. A frame whose decoded command is 0x04 (SPEED) and whose dlc is at most 4
  is a speed query: one immediate ACK, no delayed frame, no controller call, and
  the train-light map unchanged (the dispatcher state is returned as it was). Only
  when dlc exceeds 4 is the speed field \<open>(data[4] << 8) | data[5]\<close> read and the
  controller's set-speed operation invoked, with the mapped speed and the stored
  light flag of the train (false when none is stored); with both bytes present the
  field is the big-endian 16-bit value \<open>data[4] * 256 + data[5]\<close>.
\<close>

theorem SPEED_query:
  assumes "decodeCommand f = SPEED_CMD"
  shows "(dlc f \<le> 4 \<longrightarrow>
            handleTxFrame h f = (\<lparr> immediate = [makeAck f], delayed = [] \<rparr>, h))
       \<and> (dlc f > 4 \<longrightarrow>
            fst (handleTxFrame h f) = \<lparr> immediate = [makeAck f], delayed = [] \<rparr>
          \<and> trainLights (snd (handleTxFrame h f)) = trainLights h
          \<and> (\<forall>calls. controller h = Some calls \<longrightarrow>
                controller (snd (handleTxFrame h f)) =
                  Some (calls @
                    [SetTrainSpeed (readId (data f))
                       (cs3SpeedToSim
                          (js_or (js_shl (num (byte_at (data f) 4)) 8) (num (byte_at (data f) 5))))
                       (case trainLights h (readId (data f)) of None \<Rightarrow> False | Some l \<Rightarrow> l)]))
          \<and> (controller h = None \<longrightarrow> controller (snd (handleTxFrame h f)) = None))
       \<and> (data f = a # b # c # d # hi # lo # r \<longrightarrow>
            js_or (js_shl (num (byte_at (data f) 4)) 8) (num (byte_at (data f) 5))
              = uint hi * 256 + uint lo)"
  using assms
  by (auto simp add: handleTxFrame_def handleSpeed_def ackOnly_def Let_def byte_at_simps be16
      num_def callController_def split: option.splits)

theorem SPEED_query_witness:
  "decodeCommand \<lparr> frame_id = 2, eid = 0, dlc = 4, data = [0, 0, 0, 1] \<rparr> = SPEED_CMD
   \<and> dlc \<lparr> frame_id = 2, eid = 0, dlc = 4, data = [0, 0, 0, 1] \<rparr> \<le> 4
   \<and> handleTxFrame \<lparr> controller = Some [], trainLights = Map.empty \<rparr>
        \<lparr> frame_id = 2, eid = 0, dlc = 4, data = [0, 0, 0, 1] \<rparr>
      = (\<lparr> immediate = [\<lparr> frame_id = 2, eid = 0x10000, dlc = 4, data = [0, 0, 0, 1] \<rparr>], delayed = [] \<rparr>,
         \<lparr> controller = Some [], trainLights = Map.empty \<rparr>)
   \<and> decodeCommand \<lparr> frame_id = 2, eid = 0, dlc = 6, data = [0, 0, 0, 1, 0x01, 0xF4] \<rparr> = SPEED_CMD
   \<and> dlc \<lparr> frame_id = 2, eid = 0, dlc = 6, data = [0, 0, 0, 1, 0x01, 0xF4] \<rparr> > 4
   \<and> controller (snd (handleTxFrame \<lparr> controller = Some [], trainLights = Map.empty \<rparr>
        \<lparr> frame_id = 2, eid = 0, dlc = 6, data = [0, 0, 0, 1, 0x01, 0xF4] \<rparr>))
      = Some [SetTrainSpeed 1 7 False]"
proof -
  have cmd: "decodeCommand \<lparr> frame_id = 2, eid = 0, dlc = n, data = ds \<rparr> = SPEED_CMD" for n ds
    by (simp add: decodeCommand_def js_or_def js_and_def js_shl_def js_sar_def toInt32_def)
  have ack: "makeAck \<lparr> frame_id = 2, eid = 0, dlc = 4, data = [0, 0, 0, 1] \<rparr>
      = \<lparr> frame_id = 2, eid = 0x10000, dlc = 4, data = [0, 0, 0, 1] \<rparr>"
    by (simp add: makeAck_def js_or_def toInt32_def)
  have rid: "readId [0, 0, 0, 1, 0x01, 0xF4] = 1"
    by (simp add: readId_be32)
  have sp: "cs3SpeedToSim 500 = 7"
    by (simp add: cs3SpeedToSim_def round_def)
  show ?thesis
    using SPEED_query [where f = "\<lparr> frame_id = 2, eid = 0, dlc = 4, data = [0, 0, 0, 1] \<rparr>"
          and h = "\<lparr> controller = Some [], trainLights = Map.empty \<rparr>"]
      SPEED_query [where f = "\<lparr> frame_id = 2, eid = 0, dlc = 6, data = [0, 0, 0, 1, 0x01, 0xF4] \<rparr>"
          and a = 0 and b = 0 and c = 0 and d = 1 and hi = "0x01" and lo = "0xF4" and r = "[]"
          and h = "\<lparr> controller = Some [], trainLights = Map.empty \<rparr>"]
    by (simp add: cmd ack rid sp)
qed

text \<open>
  Claim C6. The mapping from CS3 speed to simulator speed is
  \<open>round (cs3 / 1000 * 14)\<close> clamped to 0..14; it maps 0 to 0, 500 to 7, 1000 to 14,
  1001 to 14 and every negative speed to 0.
\<close>

theorem cs3SpeedToSim_spec:
  "cs3SpeedToSim c = max 0 (min 14 (round (real_of_int c / 1000 * 14)))
   \<and> cs3SpeedToSim 0 = 0 \<and> cs3SpeedToSim 500 = 7 \<and> cs3SpeedToSim 1000 = 14
   \<and> cs3SpeedToSim 1001 = 14 \<and> (c < 0 \<longrightarrow> cs3SpeedToSim c = 0)"
proof -
  have clamp: "cs3SpeedToSim c = max 0 (min 14 (round (real_of_int c / 1000 * 14)))"
  proof -
    consider "c \<le> 0" | "0 < c" "c < 1000" | "1000 \<le> c" by linarith
    then show ?thesis
    proof cases
      case 1
      then have "round (real_of_int c / 1000 * 14) \<le> 0"
        unfolding round_def by (simp add: floor_le_iff)
      with 1 show ?thesis by (simp add: cs3SpeedToSim_def)
    next
      case 2
      then have "0 \<le> round (real_of_int c / 1000 * 14)" "round (real_of_int c / 1000 * 14) \<le> 14"
        unfolding round_def by (simp_all add: floor_le_iff le_floor_iff)
      with 2 show ?thesis by (simp add: cs3SpeedToSim_def)
    next
      case 3
      then have "14 \<le> round (real_of_int c / 1000 * 14)"
        unfolding round_def by (simp add: le_floor_iff)
      with 3 show ?thesis by (simp add: cs3SpeedToSim_def)
    qed
  qed
  have points: "cs3SpeedToSim 0 = 0" "cs3SpeedToSim 500 = 7" "cs3SpeedToSim 1000 = 14"
    "cs3SpeedToSim 1001 = 14"
    by (simp_all add: cs3SpeedToSim_def round_def)
  have neg: "c < 0 \<longrightarrow> cs3SpeedToSim c = 0"
    by (simp add: cs3SpeedToSim_def)
  show ?thesis
    using clamp points neg by blast
qed

theorem cs3SpeedToSim_spec_witness:
  "(-5 :: int) < 0 \<and> cs3SpeedToSim (-5) = 0 \<and> cs3SpeedToSim 250 = 4 \<and> cs3SpeedToSim 499 = 7"
  using cs3SpeedToSim_spec [of "-5"] cs3SpeedToSim_spec [of 250] cs3SpeedToSim_spec [of 499]
  by (simp add: round_def)

section \<open>Loading a frame into RXB0\<close>

lemma bit_int_numerals:
  "bit (255 :: int) n \<longleftrightarrow> n < 8"
  "bit (7 :: int) n \<longleftrightarrow> n < 3"
  "bit (3 :: int) n \<longleftrightarrow> n < 2"
  "bit (15 :: int) n \<longleftrightarrow> n < 4"
  "bit (8 :: int) n \<longleftrightarrow> n = 3"
  "bit (65536 :: int) n \<longleftrightarrow> n = 16"
  "bit (196608 :: int) n \<longleftrightarrow> n = 16 \<or> n = 17"
proof -
  have "(255 :: int) = mask 8" "(7 :: int) = mask 3" "(3 :: int) = mask 2" "(15 :: int) = mask 4"
    "(8 :: int) = 2 ^ 3" "(65536 :: int) = 2 ^ 16" "(196608 :: int) = push_bit 16 (mask 2)"
    by (simp_all add: mask_eq_exp_minus_1)
  then show "bit (255 :: int) n \<longleftrightarrow> n < 8"
  "bit (7 :: int) n \<longleftrightarrow> n < 3"
  "bit (3 :: int) n \<longleftrightarrow> n < 2"
  "bit (15 :: int) n \<longleftrightarrow> n < 4"
  "bit (8 :: int) n \<longleftrightarrow> n = 3"
  "bit (65536 :: int) n \<longleftrightarrow> n = 16"
  "bit (196608 :: int) n \<longleftrightarrow> n = 16 \<or> n = 17"
    by (simp_all only: bit_mask_iff bit_exp_iff bit_push_bit_iff) auto
qed

lemma bit_toUint8: "bit (toUint8 x) n \<longleftrightarrow> n < 8 \<and> bit x n"
  by (auto simp add: toUint8_def bit_word_of_int_iff)

lemma bit_bounded: "0 \<le> (x::int) \<Longrightarrow> x < 2 ^ k \<Longrightarrow> bit x n \<Longrightarrow> n < k"
  by (metis bit_take_bit_iff take_bit_int_eq_self)

lemma rx_id:
  assumes "0 \<le> i" "i < 2 ^ 11"
  shows "push_bit 3 (uint (toUint8 (js_and (js_sar i 3) 0xFF)))
         OR (drop_bit 5 (uint (toUint8 (js_or (js_or (js_shl (js_and i 0x07) 5) 0x08)
                                 (js_and (js_sar e 16) 0x03)))) AND 7) = i"
proof (rule bit_eqI)
  fix n
  have b: "bit i n \<Longrightarrow> n < 11" using bit_bounded [OF assms] .
  show "bit (push_bit 3 (uint (toUint8 (js_and (js_sar i 3) 0xFF)))
         OR (drop_bit 5 (uint (toUint8 (js_or (js_or (js_shl (js_and i 0x07) 5) 0x08)
                                 (js_and (js_sar e 16) 0x03)))) AND 7)) n \<longleftrightarrow> bit i n"
    using b
    by (auto simp add: bit_or_iff bit_and_iff bit_push_bit_iff bit_drop_bit_eq bit_toUint8 js_bits
       bit_int_numerals)
qed

lemma rx_eid:
  assumes "0 \<le> e" "e < 2 ^ 18"
  shows "push_bit 16 (uint (toUint8 (js_or (js_or (js_shl (js_and i 0x07) 5) 0x08)
                                 (js_and (js_sar e 16) 0x03))) AND 3)
         OR push_bit 8 (uint (toUint8 (js_and (js_sar e 8) 0xFF)))
         OR uint (toUint8 (js_and e 0xFF)) = e"
proof (rule bit_eqI)
  fix n
  have b: "bit e n \<Longrightarrow> n < 18" using bit_bounded [OF assms] .
  show "bit (push_bit 16 (uint (toUint8 (js_or (js_or (js_shl (js_and i 0x07) 5) 0x08)
                                 (js_and (js_sar e 16) 0x03))) AND 3)
         OR push_bit 8 (uint (toUint8 (js_and (js_sar e 8) 0xFF)))
         OR uint (toUint8 (js_and e 0xFF))) n \<longleftrightarrow> bit e n"
    using b
    by (auto simp add: bit_or_iff bit_and_iff bit_push_bit_iff bit_drop_bit_eq bit_toUint8 js_bits
       bit_int_numerals)
qed

lemma rx_dlc: "0 \<le> d \<Longrightarrow> d < 256 \<Longrightarrow> uint (toUint8 d) = d"
  by (simp add: toUint8_def uint_word_of_int take_bit_int_eq_self flip: take_bit_eq_mod)

lemma word8_of_nat_inj:
  "m < 256 \<Longrightarrow> n < 256 \<Longrightarrow> (of_nat m :: 8 word) = of_nat n \<longleftrightarrow> m = n"
  by (simp add: word_of_nat_eq_iff take_bit_nat_eq_self)

lemma unat_word8_of_nat: "n < 256 \<Longrightarrow> unat (of_nat n :: 8 word) = n"
  by (simp add: unat_of_nat)

lemma registers_updateIntPin: "registers (updateIntPin s) = registers s"
  by (simp add: updateIntPin_def Let_def)

lemma loadData_Suc_aux:
  "foldl (\<lambda>r i. storeReg r (0x66 + i) (toUint8 (num (byte_at ds i)))) regs [0 ..< Suc n]
   = storeReg (foldl (\<lambda>r i. storeReg r (0x66 + i) (toUint8 (num (byte_at ds i)))) regs [0 ..< n])
       (0x66 + n) (toUint8 (num (byte_at ds n)))"
  by simp

lemma loadData_low_aux:
  "unat a < 0x66 \<Longrightarrow>
   foldl (\<lambda>r i. storeReg r (0x66 + i) (toUint8 (num (byte_at ds i)))) regs [0 ..< n] a = regs a"
proof (induction n)
  case 0
  then show ?case by simp
next
  case (Suc n)
  have "a \<noteq> of_nat (0x66 + n)" if "0x66 + n < 256"
  proof
    assume "a = of_nat (0x66 + n)"
    then have "unat a = 0x66 + n"
      using that by (simp only: unat_word8_of_nat)
    with Suc.prems show False by simp
  qed
  with Suc show ?case
    by (simp only: loadData_Suc_aux) (simp add: storeReg_def)
qed

lemma loadData_at_aux:
  "i < n \<Longrightarrow> 0x66 + i < 256 \<Longrightarrow>
   foldl (\<lambda>r i. storeReg r (0x66 + i) (toUint8 (num (byte_at ds i)))) regs [0 ..< n]
     (of_nat (0x66 + i)) = toUint8 (num (byte_at ds i))"
proof (induction n)
  case 0
  then show ?case by simp
next
  case (Suc n)
  show ?case
  proof (cases "i = n")
    case True
    with Suc.prems show ?thesis
      by (simp only: loadData_Suc_aux) (simp add: storeReg_def)
  next
    case False
    with Suc.prems have "i < n" by simp
    have ne: "(of_nat (0x66 + i) :: 8 word) \<noteq> of_nat (0x66 + n)" if "0x66 + n < 256"
      using word8_of_nat_inj [OF Suc.prems(2) that] False by simp
    show ?thesis
      using Suc.IH [OF \<open>i < n\<close> Suc.prems(2)] ne
      by (simp only: loadData_Suc_aux) (simp add: storeReg_def)
  qed
qed

lemma loadData_low: "unat a < 0x66 \<Longrightarrow> loadData regs f a = regs a"
  by (simp add: loadData_def loadData_low_aux)

lemma loadData_at:
  "i < nat (dlc f) \<Longrightarrow> 0x66 + i < 256 \<Longrightarrow>
   loadData regs f (of_nat (0x66 + i)) = toUint8 (num (byte_at (data f) i))"
  using loadData_at_aux [of i "nat (dlc f)" "data f" regs] by (simp add: loadData_def)

lemma toUint8_uint: "toUint8 (uint (w :: 8 word)) = w"
  by (simp add: toUint8_def)

lemma loadHeader_regs:
  "loadHeader regs f 0x61 = toUint8 (js_and (js_sar (frame_id f) 3) 0xFF)"
  "loadHeader regs f 0x62 = toUint8 (js_or (js_or (js_shl (js_and (frame_id f) 0x07) 5) 0x08)
                                 (js_and (js_sar (eid f) 16) 0x03))"
  "loadHeader regs f 0x63 = toUint8 (js_and (js_sar (eid f) 8) 0xFF)"
  "loadHeader regs f 0x64 = toUint8 (js_and (eid f) 0xFF)"
  "loadHeader regs f 0x65 = toUint8 (dlc f)"
  by (simp_all add: loadHeader_def storeReg_def Let_def)

lemma loadFrameToRxb0_regs:
  "a \<noteq> CANINTF \<Longrightarrow> registers (loadFrameToRxb0 s f) a = loadData (loadHeader (registers s) f) f a"
  "registers (loadFrameToRxb0 s f) CANINTF = loadData (loadHeader (registers s) f) f CANINTF OR RX0IF"
  by (simp_all add: loadFrameToRxb0_def Let_def registers_updateIntPin)

text \<open>
  Claim C3. For every injected frame F with id in 0..0x7FF, eid in 0..0x3FFFF, dlc
  in 0..8 and dlc data bytes: after the engine has loaded F into RXB0 and set
  CANINTF.RX0IF, decoding the register bytes from RXB0SIDH on with the inverse of
  the layout gives back F exactly.
\<close>

theorem RX_round_trip:
  assumes "0 \<le> frame_id F" "frame_id F \<le> 0x7FF"
    and "0 \<le> eid F" "eid F \<le> 0x3FFFF"
    and "0 \<le> dlc F" "dlc F \<le> 8"
    and "int (length (data F)) = dlc F"
  shows "rxb0Decode (registers (loadFrameToRxb0 s F)) = F
       \<and> bit (registers (loadFrameToRxb0 s F) CANINTF) 0"
proof -
  let ?r = "registers (loadFrameToRxb0 s F)"
  have hdr: "?r 0x61 = toUint8 (js_and (js_sar (frame_id F) 3) 0xFF)"
    "?r 0x62 = toUint8 (js_or (js_or (js_shl (js_and (frame_id F) 0x07) 5) 0x08)
                                 (js_and (js_sar (eid F) 16) 0x03))"
    "?r 0x63 = toUint8 (js_and (js_sar (eid F) 8) 0xFF)"
    "?r 0x64 = toUint8 (js_and (eid F) 0xFF)"
    "?r 0x65 = toUint8 (dlc F)"
    by (simp_all add: loadFrameToRxb0_regs loadData_low loadHeader_regs)
  have len: "nat (dlc F) = length (data F)"
    using assms(7) by simp
  have dat: "?r (of_nat (0x66 + i)) = data F ! i" if "i < length (data F)" for i
  proof -
    have "i < 8" using that assms(6,7) by simp
    then have "(of_nat (0x66 + i) :: 8 word) \<noteq> of_nat 0x2C"
      by (subst word8_of_nat_inj) simp_all
    then have ne: "(of_nat (0x66 + i) :: 8 word) \<noteq> CANINTF"
      by simp
    have "loadData (loadHeader (registers s) F) F (of_nat (0x66 + i))
        = toUint8 (num (byte_at (data F) i))"
      using that \<open>i < 8\<close> len by (intro loadData_at) simp_all
    also have "\<dots> = data F ! i"
      using that by (simp add: byte_at_def num_def toUint8_uint)
    finally show ?thesis
      by (simp only: loadFrameToRxb0_regs(1) [OF ne])
  qed
  have B: "?r (of_nat (RXB0_SIDH + 0)) = toUint8 (js_and (js_sar (frame_id F) 3) 0xFF)"
    "?r (of_nat (RXB0_SIDH + 1)) = toUint8 (js_or (js_or (js_shl (js_and (frame_id F) 0x07) 5) 0x08)
                                 (js_and (js_sar (eid F) 16) 0x03))"
    "?r (of_nat (RXB0_SIDH + 2)) = toUint8 (js_and (js_sar (eid F) 8) 0xFF)"
    "?r (of_nat (RXB0_SIDH + 3)) = toUint8 (js_and (eid F) 0xFF)"
    "?r (of_nat (RXB0_SIDH + 4)) = toUint8 (dlc F)"
    using hdr by simp_all
  have d: "uint (toUint8 (dlc F)) = dlc F"
    using assms(5,6) by (simp add: rx_dlc)
  have m: "map (\<lambda>i. ?r (of_nat (RXB0_SIDH + 5 + i))) [0 ..< nat (dlc F)] = data F"
    unfolding len by (rule nth_equalityI) (simp_all add: dat del: of_nat_add)
  have i: "frame_id F < 2 ^ 11" and e: "eid F < 2 ^ 18"
    using assms(2,4) by simp_all
  have "rxb0Decode ?r = \<lparr> frame_id = frame_id F, eid = eid F, dlc = dlc F, data = data F \<rparr>"
    by (simp only: rxb0Decode_def Let_def B d m rx_id [OF assms(1) i] rx_eid [OF assms(3) e])
  then have "rxb0Decode ?r = F"
    by simp
  moreover have "bit (?r CANINTF) 0"
    by (simp add: loadFrameToRxb0_regs bit_or_iff)
  ultimately show ?thesis by simp
qed

theorem RX_round_trip_witness:
  "0 \<le> frame_id \<lparr> frame_id = 5, eid = 0x30000, dlc = 5, data = [0, 0, 0x30, 0x09, 1] \<rparr>
   \<and> frame_id \<lparr> frame_id = 5, eid = 0x30000, dlc = 5, data = [0, 0, 0x30, 0x09, 1] \<rparr> \<le> 0x7FF
   \<and> 0 \<le> eid \<lparr> frame_id = 5, eid = 0x30000, dlc = 5, data = [0, 0, 0x30, 0x09, 1] \<rparr>
   \<and> eid \<lparr> frame_id = 5, eid = 0x30000, dlc = 5, data = [0, 0, 0x30, 0x09, 1] \<rparr> \<le> 0x3FFFF
   \<and> 0 \<le> dlc \<lparr> frame_id = 5, eid = 0x30000, dlc = 5, data = [0, 0, 0x30, 0x09, 1] \<rparr>
   \<and> dlc \<lparr> frame_id = 5, eid = 0x30000, dlc = 5, data = [0, 0, 0x30, 0x09, 1] \<rparr> \<le> 8
   \<and> int (length (data \<lparr> frame_id = 5, eid = 0x30000, dlc = 5, data = [0, 0, 0x30, 0x09, 1] \<rparr>))
       = dlc \<lparr> frame_id = 5, eid = 0x30000, dlc = 5, data = [0, 0, 0x30, 0x09, 1] \<rparr>
   \<and> rxb0Decode (registers (loadFrameToRxb0 McpDecoder_new
         \<lparr> frame_id = 5, eid = 0x30000, dlc = 5, data = [0, 0, 0x30, 0x09, 1] \<rparr>))
       = \<lparr> frame_id = 5, eid = 0x30000, dlc = 5, data = [0, 0, 0x30, 0x09, 1] \<rparr>
   \<and> registers (loadFrameToRxb0 McpDecoder_new
         \<lparr> frame_id = 5, eid = 0x30000, dlc = 5, data = [0, 0, 0x30, 0x09, 1] \<rparr>) CANINTF = 0x01"
  using RX_round_trip [of "\<lparr> frame_id = 5, eid = 0x30000, dlc = 5, data = [0, 0, 0x30, 0x09, 1] \<rparr>"
      McpDecoder_new]
  by (simp add: loadFrameToRxb0_regs loadData_low loadHeader_def storeReg_def McpDecoder_new_def)

section \<open>The interrupt pin\<close>

lemma loadHeader_low: "unat a < 0x61 \<Longrightarrow> loadHeader regs f a = regs a"
  by (auto simp add: loadHeader_def storeReg_def Let_def)

lemma loadFrame_low:
  "unat a < 0x61 \<Longrightarrow> a \<noteq> CANINTF \<Longrightarrow> registers (loadFrameToRxb0 s f) a = registers s a"
  by (simp add: loadFrameToRxb0_regs loadData_low loadHeader_low)

lemma loadFrame_CANINTF:
  "registers (loadFrameToRxb0 s f) CANINTF = registers s CANINTF OR RX0IF"
  by (simp add: loadFrameToRxb0_regs loadData_low loadHeader_low)

lemma should_mono:
  "(x AND e) \<noteq> 0 \<Longrightarrow> ((x OR y) AND e) \<noteq> (0 :: 8 word)"
  by (metis and.commute and_zero_eq bit.conj_disj_distrib or_eq_0_iff)

text \<open>What one recomputation of the interrupt pin does, field by field.\<close>

lemma updateIntPin_fields:
  "registers (updateIntPin s) = registers s"
  "rxQueue (updateIntPin s) = rxQueue s"
  "txFrameCallback (updateIntPin s) = txFrameCallback s"
  "state (updateIntPin s) = state s"
  "register (updateIntPin s) = register s"
  "txHeader (updateIntPin s) = txHeader s"
  "txData (updateIntPin s) = txData s"
  "txDlc (updateIntPin s) = txDlc s"
  "intPinAsserted (updateIntPin s) = shouldTriggerInterrupt s"
  "shouldTriggerInterrupt (updateIntPin s) = shouldTriggerInterrupt s"
  "intPinChangeCallback (updateIntPin s) =
     (case intPinChangeCallback s of
        None \<Rightarrow> None
      | Some calls \<Rightarrow>
          Some (calls @ (if shouldTriggerInterrupt s \<noteq> intPinAsserted s
                         then [shouldTriggerInterrupt s] else [])))"
  by (auto simp add: updateIntPin_def Let_def shouldTriggerInterrupt_def split: option.splits)

lemma loadFrame_fields:
  "rxQueue (loadFrameToRxb0 s f) = rxQueue s"
  "txFrameCallback (loadFrameToRxb0 s f) = txFrameCallback s"
  "state (loadFrameToRxb0 s f) = state s"
  "register (loadFrameToRxb0 s f) = register s"
  "txHeader (loadFrameToRxb0 s f) = txHeader s"
  "txData (loadFrameToRxb0 s f) = txData s"
  "txDlc (loadFrameToRxb0 s f) = txDlc s"
  "intPinAsserted (loadFrameToRxb0 s f) = shouldTriggerInterrupt (loadFrameToRxb0 s f)"
  "intPinChangeCallback (loadFrameToRxb0 s f) =
     (case intPinChangeCallback s of
        None \<Rightarrow> None
      | Some calls \<Rightarrow>
          Some (calls @ (if shouldTriggerInterrupt (loadFrameToRxb0 s f) \<noteq> intPinAsserted s
                         then [shouldTriggerInterrupt (loadFrameToRxb0 s f)] else [])))"
  by (auto simp add: loadFrameToRxb0_def Let_def updateIntPin_fields split: option.splits)

lemma should_loadFrame:
  "shouldTriggerInterrupt s \<Longrightarrow> shouldTriggerInterrupt (loadFrameToRxb0 s f)"
  by (simp add: shouldTriggerInterrupt_def loadFrame_CANINTF loadFrame_low should_mono)

lemma should_rxQueue [simp]:
  "shouldTriggerInterrupt (s\<lparr>rxQueue := q\<rparr>) = shouldTriggerInterrupt s"
  by (simp add: shouldTriggerInterrupt_def)

lemma update_only:
  assumes "intPinChangeCallback s = Some l"
  shows "\<exists>new. pinStep l (updateIntPin s) new"
  using assms by (simp add: pinStep_def updateIntPin_fields)

lemma update_then_load:
  assumes "intPinChangeCallback s = Some l"
  shows "\<exists>new. pinStep l (loadFrameToRxb0 ((updateIntPin s)\<lparr>rxQueue := q\<rparr>) f) new"
proof -
  let ?u = "(updateIntPin s)\<lparr>rxQueue := q\<rparr>"
  have u: "intPinAsserted ?u = shouldTriggerInterrupt s" "shouldTriggerInterrupt ?u = shouldTriggerInterrupt s"
    "intPinChangeCallback ?u = Some (l @ (if shouldTriggerInterrupt s \<noteq> intPinAsserted s
                         then [shouldTriggerInterrupt s] else []))"
    using assms by (simp_all add: updateIntPin_fields)
  have m: "shouldTriggerInterrupt s \<Longrightarrow> shouldTriggerInterrupt (loadFrameToRxb0 ?u f)"
    using should_loadFrame [of ?u f] u(2) by simp
  show ?thesis
    using m by (auto simp add: pinStep_def loadFrame_fields u)
qed

lemma pinStep_upd:
  "pinStep l (s\<lparr>state := st\<rparr>) new = pinStep l s new"
  "pinStep l (s\<lparr>register := r\<rparr>) new = pinStep l s new"
  "pinStep l (s\<lparr>rxQueue := q\<rparr>) new = pinStep l s new"
  by (simp_all add: pinStep_def shouldTriggerInterrupt_def)

lemma pinStep_nil: "intPinChangeCallback s' = Some l \<Longrightarrow> \<exists>new. pinStep l s' new"
  by (rule exI [of _ "[]"]) (simp add: pinStep_def)

lemma store_CANINTF_pin:
  assumes "intPinChangeCallback s = Some l"
  shows "\<exists>new. pinStep l (tryLoadNextRxFrame (updateIntPin s)) new"
  using update_only [OF assms] update_then_load [OF assms]
  by (simp add: tryLoadNextRxFrame_def)

lemma queue_after_update_pin:
  assumes "intPinChangeCallback s = Some l"
  shows "\<exists>new. pinStep l (queueRxFrames (updateIntPin s) fs) new"
  using update_only [OF assms] update_then_load [OF assms]
  by (simp add: queueRxFrames_def tryLoadNextRxFrame_def pinStep_upd)

lemma handleInstruction_pin:
  "intPinChangeCallback s = Some l \<Longrightarrow> \<exists>new. pinStep l (snd (handleInstruction s b)) new"
  by (rule pinStep_nil) (simp add: handleInstruction_def)

lemma emitResult_pin:
  assumes "intPinChangeCallback s = Some l"
  shows "\<exists>new. pinStep l (snd (emitResult s)) new"
  using assms
  by (simp add: emitResult_def emitCanFrame_def Let_def pinStep_upd update_only
      queue_after_update_pin split: option.splits)

lemma decode_WRITE_DATA_pin:
  assumes "intPinChangeCallback s = Some l"
  shows "\<exists>new. pinStep l (snd (decode_WRITE_DATA s b)) new"
  using assms
  by (simp add: decode_WRITE_DATA_def Let_def pinStep_upd handleInstruction_pin
      store_CANINTF_pin pinStep_nil)

lemma decode_BIT_MODIFY_DATA_pin:
  assumes "intPinChangeCallback s = Some l"
  shows "\<exists>new. pinStep l (snd (decode_BIT_MODIFY_DATA s b)) new"
  using assms
  by (simp add: decode_BIT_MODIFY_DATA_def Let_def pinStep_upd store_CANINTF_pin pinStep_nil)

lemma decode_TX_HEADER_pin:
  assumes "intPinChangeCallback s = Some l"
  shows "\<exists>new. pinStep l (snd (decode_TX_HEADER s b)) new"
  using assms
  by (simp add: decode_TX_HEADER_def Let_def emitResult_pin pinStep_nil)

lemma decode_TX_DATA_pin:
  assumes "intPinChangeCallback s = Some l"
  shows "\<exists>new. pinStep l (snd (decode_TX_DATA s b)) new"
  using assms
  by (simp add: decode_TX_DATA_def Let_def emitResult_pin pinStep_nil)

lemma decode_pin:
  assumes "intPinChangeCallback s = Some l"
  shows "\<exists>new. pinStep l (snd (decode s b)) new"
proof (cases "state s")
  case IDLE
  then show ?thesis using handleInstruction_pin [OF assms] by (simp add: decode_def)
next
  case WRITE_ADDR
  then show ?thesis using assms by (auto simp add: decode_def intro!: pinStep_nil)
next
  case WRITE_DATA
  then show ?thesis using decode_WRITE_DATA_pin [OF assms] by (simp add: decode_def)
next
  case TX_HEADER
  then show ?thesis using decode_TX_HEADER_pin [OF assms] by (simp add: decode_def)
next
  case TX_DATA
  then show ?thesis using decode_TX_DATA_pin [OF assms] by (simp add: decode_def)
next
  case READ_ADDR
  then show ?thesis using assms by (auto simp add: decode_def intro!: pinStep_nil)
next
  case READ_DATA
  then show ?thesis using assms handleInstruction_pin [OF assms]
    by (auto simp add: decode_def intro!: pinStep_nil)
next
  case BIT_MODIFY_ADDR
  then show ?thesis using assms by (auto simp add: decode_def intro!: pinStep_nil)
next
  case BIT_MODIFY_MASK
  then show ?thesis using assms by (auto simp add: decode_def intro!: pinStep_nil)
next
  case BIT_MODIFY_DATA
  then show ?thesis using decode_BIT_MODIFY_DATA_pin [OF assms] by (simp add: decode_def)
next
  case READ_STATUS_DUMMY
  then show ?thesis using assms by (auto simp add: decode_def intro!: pinStep_nil)
qed

lemma rx0_clear:
  assumes "b AND e = (0 :: 8 word)" "bit e 0"
  shows "b AND 1 = 0"
proof -
  have "bit (b AND e) 0 = False" using assms(1) by simp
  then have "\<not> bit b 0" using assms(2) by (simp add: bit_and_iff)
  then show ?thesis using and_exp_eq_0_iff_not_bit [of b 0] by simp
qed

lemma rx0_set_enabled:
  assumes "bit e 0"
  shows "(b OR 1) AND e \<noteq> (0 :: 8 word)"
proof
  assume "(b OR 1) AND e = 0"
  then have "bit ((b OR 1) AND e) 0 = False" by simp
  then show False using assms by (simp add: bit_and_iff bit_or_iff)
qed

lemma clear_and_reload:
  assumes cb: "intPinChangeCallback s = Some l"
    and st: "state s = WRITE_DATA" "register s = CANINTF" "\<not> isInstruction b"
    and pin: "intPinAsserted s"
    and clr: "b AND registers s CANINTE = 0"
    and en: "bit (registers s CANINTE) 0"
    and q: "rxQueue s \<noteq> []"
  shows "intCalls s b = [False, True]"
proof -
  let ?s1 = "s\<lparr>registers := (registers s)(CANINTF := b)\<rparr>"
  let ?u = "updateIntPin ?s1"
  let ?v = "loadFrameToRxb0 (?u\<lparr>rxQueue := tl (rxQueue ?u)\<rparr>) (hd (rxQueue ?u))"
  have sh1: "\<not> shouldTriggerInterrupt ?s1"
    using clr by (simp add: shouldTriggerInterrupt_def)
  have u: "intPinChangeCallback ?u = Some (l @ [False])" "intPinAsserted ?u = False"
    "registers ?u = registers ?s1" "rxQueue ?u = rxQueue s"
    using cb pin sh1 by (simp_all add: updateIntPin_fields)
  have free: "registers ?u CANINTF AND RX0IF = 0"
    using rx0_clear [OF clr en] by (simp add: u)
  have load: "tryLoadNextRxFrame ?u = ?v"
    using free q by (simp add: tryLoadNextRxFrame_def u)
  have shv: "shouldTriggerInterrupt ?v"
    using rx0_set_enabled [OF en, of b]
    by (simp add: shouldTriggerInterrupt_def loadFrame_CANINTF loadFrame_low u)
  have "intPinChangeCallback ?v = Some (l @ [False, True])"
    using shv by (simp add: loadFrame_fields u)
  moreover have "snd (decode s b) = ?v\<lparr>register := register ?v + 1\<rparr>"
    using st load by (simp add: decode_def decode_WRITE_DATA_def Let_def)
  ultimately show ?thesis
    using cb by (simp add: intCalls_def)
qed

text \<open>
  Claim C1, as amended. While \<open>decode\<close> processes one input byte the interrupt-change
  callback is invoked at most twice. Two invocations happen only as a de-assertion
  followed by an assertion. Whenever the callback is invoked during a byte, the last
  value it reports is the final state \<open>(CANINTF AND CANINTE) \<noteq> 0\<close> after all side
  effects of that byte. The pair (false, true) is produced in particular by a WRITE
  data byte stored to CANINTF when the pin is asserted, the byte leaves no enabled
  flag set, RX0IE is enabled and the RX queue is not empty: the pin is released,
  the next queued frame is loaded and sets RX0IF again, and the pin is asserted
  again.
\<close>

theorem int_callback_per_byte:
  assumes "intPinChangeCallback s = Some l"
  shows "intPinChangeCallback (snd (decode s b)) = Some (l @ intCalls s b)
       \<and> length (intCalls s b) \<le> 2
       \<and> (length (intCalls s b) = 2 \<longrightarrow> intCalls s b = [False, True])
       \<and> (intCalls s b \<noteq> [] \<longrightarrow>
            last (intCalls s b) = shouldTriggerInterrupt (snd (decode s b))
          \<and> intPinAsserted (snd (decode s b)) = shouldTriggerInterrupt (snd (decode s b)))
       \<and> (state s = WRITE_DATA \<and> register s = CANINTF \<and> \<not> isInstruction b
            \<and> intPinAsserted s \<and> b AND registers s CANINTE = 0
            \<and> bit (registers s CANINTE) 0 \<and> rxQueue s \<noteq> [] \<longrightarrow>
            intCalls s b = [False, True])"
proof -
  obtain new where p: "pinStep l (snd (decode s b)) new"
    using decode_pin [OF assms] by blast
  then have "intCalls s b = new"
    using assms by (simp add: intCalls_def pinStep_def)
  with p have general:
    "intPinChangeCallback (snd (decode s b)) = Some (l @ intCalls s b)
       \<and> length (intCalls s b) \<le> 2
       \<and> (length (intCalls s b) = 2 \<longrightarrow> intCalls s b = [False, True])
       \<and> (intCalls s b \<noteq> [] \<longrightarrow>
            last (intCalls s b) = shouldTriggerInterrupt (snd (decode s b))
          \<and> intPinAsserted (snd (decode s b)) = shouldTriggerInterrupt (snd (decode s b)))"
    by (auto simp add: pinStep_def)
  show ?thesis
    using general clear_and_reload [OF assms] by blast
qed

theorem int_callback_per_byte_witness:
  "intPinChangeCallback twoQueued = Some [True]
   \<and> state twoQueued = WRITE_DATA \<and> register twoQueued = CANINTF
   \<and> \<not> isInstruction 0x00 \<and> intPinAsserted twoQueued
   \<and> 0x00 AND registers twoQueued CANINTE = 0
   \<and> bit (registers twoQueued CANINTE) 0 \<and> rxQueue twoQueued \<noteq> []
   \<and> intCalls twoQueued 0x00 = [False, True]
   \<and> intPinChangeCallback (snd (decode twoQueued 0x00)) = Some [True, False, True]
   \<and> shouldTriggerInterrupt (snd (decode twoQueued 0x00))"
proof -
  have 1: "intPinChangeCallback twoQueued = Some [True]"
    by code_simp
  have s: "state twoQueued = WRITE_DATA" by code_simp
  have r: "register twoQueued = CANINTF" by code_simp
  have a: "intPinAsserted twoQueued" by code_simp
  have e: "registers twoQueued CANINTE = 0x01" by code_simp
  have "length (rxQueue twoQueued) = 1" by code_simp
  then have q: "rxQueue twoQueued \<noteq> []" by auto
  have i: "\<not> isInstruction 0x00"
    by (simp add: isInstruction_def)
  have c: "0x00 AND registers twoQueued CANINTE = 0" and b: "bit (registers twoQueued CANINTE) 0"
    by (simp_all add: e)
  note main = int_callback_per_byte [OF 1, of "0x00"]
  have k: "intCalls twoQueued 0x00 = [False, True]"
    using main s r a q i c b by blast
  have g: "intPinChangeCallback (snd (decode twoQueued 0x00)) = Some ([True] @ intCalls twoQueued 0x00)"
    using main by blast
  have h: "intCalls twoQueued 0x00 \<noteq> [] \<longrightarrow>
      last (intCalls twoQueued 0x00) = shouldTriggerInterrupt (snd (decode twoQueued 0x00))"
    using main by blast
  have g': "intPinChangeCallback (snd (decode twoQueued 0x00)) = Some [True, False, True]"
    using g by (simp add: k)
  have h': "shouldTriggerInterrupt (snd (decode twoQueued 0x00))"
    using h by (simp add: k)
  show ?thesis
    by (intro conjI) (fact 1 s r i a c b q k g' h')+
qed

text \<open>
  Claim C1 as stated (at most one invocation per byte) fails: the byte 0x00 written
  to CANINTF with a second frame queued makes the callback report False and then
  True.
\<close>

theorem int_callback_twice_counterexample:
  "intCalls twoQueued 0x00 = [False, True] \<and> \<not> length (intCalls twoQueued 0x00) \<le> 1"
proof -
  have "intCalls twoQueued 0x00 = [False, True]"
    by code_simp
  then show ?thesis by simp
qed

section \<open>The TX path: register mirror and frame ranges\<close>

lemma mirror_iff: "mirror regs base xs \<longleftrightarrow> (\<forall>i < length xs. regs (base + of_nat i) = xs ! i)"
  unfolding mirror_def by (subst list_eq_iff_nth_eq) simp

lemma unat_txb0: "i < 200 \<Longrightarrow> unat (0x31 + of_nat i :: 8 word) = 0x31 + i"
  by (simp add: unat_word_ariths unat_of_nat)

lemma unat_txb0_data: "i < 200 \<Longrightarrow> unat (0x36 + of_nat i :: 8 word) = 0x36 + i"
  by (simp add: unat_word_ariths unat_of_nat)

lemma nibble: "js_and (uint (w :: 8 word)) 0x0F = uint (w AND 0x0F)"
  by (rule bit_eqI) (auto simp add: js_bits bit_int_numerals bit_and_iff min_def
      simp flip: uint_and)

lemma nibble_bounds: "0 \<le> uint ((w :: 8 word) AND 0x0F)" "uint ((w :: 8 word) AND 0x0F) \<le> 15"
proof -
  show "0 \<le> uint (w AND 0x0F)" by simp
  have "w AND 0x0F \<le> 0x0F" by (rule word_and_le1)
  then show "uint (w AND 0x0F) \<le> 15" by (simp add: word_le_def)
qed

lemma bits_bound: "(\<And>n. bit (x :: int) n \<Longrightarrow> n < k) \<Longrightarrow> 0 \<le> x \<and> x < 2 ^ k"
proof -
  assume a: "\<And>n. bit x n \<Longrightarrow> n < k"
  have "take_bit k x = x"
    by (rule bit_eqI) (auto simp add: bit_take_bit_iff a)
  then show ?thesis
    by (metis take_bit_int_less_exp take_bit_nonnegative)
qed

lemma bit_num_byte_at: "bit (num (byte_at h i)) n \<Longrightarrow> n < 8"
  by (auto simp add: num_def byte_at_def bit_uint8 split: if_splits)

lemma txFrame_id_bounds: "0 \<le> frame_id (txFrame s) \<and> frame_id (txFrame s) < 2 ^ 11"
proof (rule bits_bound)
  fix n assume "bit (frame_id (txFrame s)) n"
  then show "n < 11"
    by (auto simp add: txFrame_def Let_def js_bits bit_int_numerals min_def
        dest!: bit_num_byte_at split: if_splits)
qed

lemma txFrame_eid_bounds: "0 \<le> eid (txFrame s) \<and> eid (txFrame s) < 2 ^ 18"
proof (rule bits_bound)
  fix n assume "bit (eid (txFrame s)) n"
  then show "n < 18"
    by (auto simp add: txFrame_def Let_def js_bits bit_int_numerals min_def
        dest!: bit_num_byte_at split: if_splits)
qed

lemma word8_add_eq:
  "a + i < 256 \<Longrightarrow> b + j < 256 \<Longrightarrow>
   (of_nat a + of_nat i :: 8 word) = of_nat b + of_nat j \<longleftrightarrow> a + i = b + j"
  using word8_of_nat_inj [of "a + i" "b + j"] by simp

lemma word8_unat_add: "a + i < 256 \<Longrightarrow> unat (of_nat a + of_nat i :: 8 word) = a + i"
  using unat_word8_of_nat [of "a + i"] by simp

lemma low_header_addr:
  "i < 5 \<Longrightarrow> unat (0x31 + of_nat i :: 8 word) < 0x61 \<and> (0x31 + of_nat i :: 8 word) \<noteq> CANINTF"
  using word8_unat_add [of "0x31" i] word8_add_eq [of "0x31" i "0x2C" 0] by simp

lemma low_data_addr:
  "i < 15 \<Longrightarrow> unat (0x36 + of_nat i :: 8 word) < 0x61 \<and> (0x36 + of_nat i :: 8 word) \<noteq> CANINTF"
  using word8_unat_add [of "0x36" i] word8_add_eq [of "0x36" i "0x2C" 0] by simp

lemma header_addr_inj:
  "i < 5 \<Longrightarrow> j < 5 \<Longrightarrow> (0x31 + of_nat i :: 8 word) = 0x31 + of_nat j \<longleftrightarrow> i = j"
  using word8_add_eq [of "0x31" i "0x31" j] by simp

lemma data_addr_inj:
  "i < 15 \<Longrightarrow> j < 15 \<Longrightarrow> (0x36 + of_nat i :: 8 word) = 0x36 + of_nat j \<longleftrightarrow> i = j"
  using word8_add_eq [of "0x36" i "0x36" j] by simp

lemma data_header_addr_ne:
  "i < 15 \<Longrightarrow> j < 5 \<Longrightarrow> (0x36 + of_nat i :: 8 word) \<noteq> 0x31 + of_nat j"
  using word8_add_eq [of "0x36" i "0x31" j] by simp

lemma tryLoad_low:
  "unat a < 0x61 \<Longrightarrow> a \<noteq> CANINTF \<Longrightarrow> registers (tryLoadNextRxFrame s) a = registers s a"
  by (simp add: tryLoadNextRxFrame_def loadFrame_low)

lemma tryLoad_fields:
  "state (tryLoadNextRxFrame s) = state s"
  "txHeader (tryLoadNextRxFrame s) = txHeader s"
  "txData (tryLoadNextRxFrame s) = txData s"
  "txDlc (tryLoadNextRxFrame s) = txDlc s"
  by (simp_all add: tryLoadNextRxFrame_def loadFrame_fields)

lemma queue_low:
  "unat a < 0x61 \<Longrightarrow> a \<noteq> CANINTF \<Longrightarrow> registers (queueRxFrames s fs) a = registers s a"
  by (simp add: queueRxFrames_def tryLoad_low)

lemma queue_fields:
  "state (queueRxFrames s fs) = state s"
  "txHeader (queueRxFrames s fs) = txHeader s"
  "txData (queueRxFrames s fs) = txData s"
  "txDlc (queueRxFrames s fs) = txDlc s"
  by (simp_all add: queueRxFrames_def tryLoad_fields)

lemma emit_fields:
  "fst (emitCanFrame s) = txFrame s"
  "state (snd (emitCanFrame s)) = IDLE"
  "txHeader (snd (emitCanFrame s)) = txHeader s"
  "txData (snd (emitCanFrame s)) = txData s"
  "txDlc (snd (emitCanFrame s)) = txDlc s"
  by (simp_all add: emitCanFrame_def Let_def txFrame_def queue_fields updateIntPin_fields
      split: option.splits)

lemma emit_low:
  "unat a < 0x61 \<Longrightarrow> a \<noteq> CANINTF \<Longrightarrow> registers (snd (emitCanFrame s)) a = registers s a"
  by (simp add: emitCanFrame_def Let_def queue_low updateIntPin_fields split: option.splits)

lemma emitResult_fields:
  "frame (fst (emitResult s)) = Some (txFrame s)"
  "state (snd (emitResult s)) = IDLE"
  "txHeader (snd (emitResult s)) = txHeader s"
  "txData (snd (emitResult s)) = txData s"
  "txDlc (snd (emitResult s)) = txDlc s"
  "unat a < 0x61 \<Longrightarrow> a \<noteq> CANINTF \<Longrightarrow> registers (snd (emitResult s)) a = registers s a"
  by (simp_all add: emitResult_def case_prod_beta emit_fields emit_low)

lemma mirror_low:
  assumes "\<And>i. i < length xs \<Longrightarrow> regs' (base + of_nat i) = regs (base + of_nat i)"
  shows "mirror regs' base xs = mirror regs base xs"
  using assms by (simp add: mirror_iff)

lemma txInv_queue: "txInv s \<Longrightarrow> txInv (queueRxFrames s fs)"
proof -
  assume inv: "txInv s"
  have h: "mirror (registers (queueRxFrames s fs)) TXB0_SIDH (txHeader s)
           = mirror (registers s) TXB0_SIDH (txHeader s)" if "length (txHeader s) \<le> 5"
    using that by (intro mirror_low) (simp add: queue_low low_header_addr)
  have d: "mirror (registers (queueRxFrames s fs)) (TXB0_SIDH + 5) (txData s)
           = mirror (registers s) (TXB0_SIDH + 5) (txData s)" if "length (txData s) < 15"
    using that by (intro mirror_low) (simp add: queue_low low_data_addr)
  have n: "uint (txHeader s ! 4 AND 0x0F) \<le> 15"
    by (rule nibble_bounds)
  show ?thesis
    using inv h d n by (auto simp add: txInv_def queue_fields)
qed

lemma mirror_snoc_header:
  assumes "length xs < 5" "mirror regs 0x31 xs"
  shows "mirror (regs(0x31 + of_nat (length xs) := b)) 0x31 (xs @ [b])"
  unfolding mirror_iff
proof (intro allI impI)
  fix i assume "i < length (xs @ [b])"
  then consider "i = length xs" | "i < length xs" by fastforce
  then show "(regs(0x31 + of_nat (length xs) := b)) (0x31 + of_nat i) = (xs @ [b]) ! i"
  proof cases
    case 1
    then show ?thesis by simp
  next
    case 2
    then have "(0x31 + of_nat i :: 8 word) \<noteq> 0x31 + of_nat (length xs)"
      using assms(1) header_addr_inj [of i "length xs"] by auto
    with 2 assms(2) show ?thesis
      by (simp add: mirror_iff nth_append)
  qed
qed

lemma mirror_snoc_data:
  assumes "length xs < 15" "mirror regs 0x36 xs"
  shows "mirror (regs(0x36 + of_nat (length xs) := b)) 0x36 (xs @ [b])"
  unfolding mirror_iff
proof (intro allI impI)
  fix i assume "i < length (xs @ [b])"
  then consider "i = length xs" | "i < length xs" by fastforce
  then show "(regs(0x36 + of_nat (length xs) := b)) (0x36 + of_nat i) = (xs @ [b]) ! i"
  proof cases
    case 1
    then show ?thesis by simp
  next
    case 2
    then have "(0x36 + of_nat i :: 8 word) \<noteq> 0x36 + of_nat (length xs)"
      using assms(1) data_addr_inj [of i "length xs"] by auto
    with 2 assms(2) show ?thesis
      by (simp add: mirror_iff nth_append)
  qed
qed

lemma mirror_header_data_store:
  assumes "length hdr \<le> 5" "k < 15"
  shows "mirror (regs(0x36 + of_nat k := b)) 0x31 hdr = mirror regs 0x31 hdr"
proof (rule mirror_low)
  fix i assume "i < length hdr"
  then have "(0x36 + of_nat k :: 8 word) \<noteq> 0x31 + of_nat i"
    using assms by (intro data_header_addr_ne) simp_all
  then show "(regs(0x36 + of_nat k := b)) (0x31 + of_nat i) = regs (0x31 + of_nat i)"
    by auto
qed

lemma mirror_emitResult_header:
  "length xs \<le> 5 \<Longrightarrow> mirror (registers (snd (emitResult s))) 0x31 xs = mirror (registers s) 0x31 xs"
  by (rule mirror_low) (simp add: emitResult_fields low_header_addr)

lemma mirror_emitResult_data:
  "length xs \<le> 15 \<Longrightarrow> mirror (registers (snd (emitResult s))) 0x36 xs = mirror (registers s) 0x36 xs"
  by (rule mirror_low) (simp add: emitResult_fields low_data_addr)

lemma txFrame_cong:
  "txHeader s' = txHeader s \<Longrightarrow> txData s' = txData s \<Longrightarrow> txDlc s' = txDlc s \<Longrightarrow> txFrame s' = txFrame s"
  by (simp add: txFrame_def)

lemma txFrame_emitResult: "txFrame (snd (emitResult s)) = txFrame s"
  by (rule txFrame_cong) (simp_all add: emitResult_fields)

lemma emitPost_emitResult:
  assumes "length (txHeader s) = 5" "mirror (registers s) 0x31 (txHeader s)"
    and "txDlc s = uint (txHeader s ! 4 AND 0x0F)"
    and "txDlc s = 0 \<or> int (length (txData s)) = txDlc s \<and> mirror (registers s) 0x36 (txData s)"
  shows "emitPost (snd (emitResult s))"
proof -
  have "txDlc s \<le> 15"
    using assms(3) nibble_bounds(2) [of "txHeader s ! 4"] by simp
  then have "txDlc s \<noteq> 0 \<Longrightarrow> length (txData s) \<le> 15"
    using assms(4) by auto
  then show ?thesis
    using assms
    by (auto simp add: emitPost_def emitResult_fields mirror_emitResult_header mirror_emitResult_data)
qed

lemma decode_TX_HEADER_inv:
  assumes "txInv s" "state s = TX_HEADER"
  shows "txInv (snd (decode_TX_HEADER s b))"
    and "frame (fst (decode_TX_HEADER s b)) = Some f \<Longrightarrow>
           f = txFrame (snd (decode_TX_HEADER s b)) \<and> emitPost (snd (decode_TX_HEADER s b))"
proof -
  let ?n = "length (txHeader s)"
  let ?s2 = "s\<lparr>registers := (registers s)(TXB0_SIDH + of_nat ?n := b), txHeader := txHeader s @ [b]\<rparr>"
  let ?s3 = "?s2\<lparr>txDlc := uint (b AND 0x0F)\<rparr>"
  have n: "?n < 5" and m: "mirror (registers s) 0x31 (txHeader s)"
    using assms by (simp_all add: txInv_def)
  have m2: "mirror (registers ?s2) 0x31 (txHeader ?s2)"
    using mirror_snoc_header [OF n m] by simp
  have dlc: "?n = 4 \<Longrightarrow> js_and (num (byte_at (txHeader s @ [b]) 4)) 0x0F = uint (b AND 0x0F)"
    by (simp add: byte_at_def num_def nibble nth_append)
  have other: "snd (decode_TX_HEADER s b) = ?s2 \<and> fst (decode_TX_HEADER s b) = noFrame 0" if "?n \<noteq> 4"
    using that by (simp add: decode_TX_HEADER_def Let_def)
  have emit: "decode_TX_HEADER s b = emitResult ?s3" if "?n = 4" "uint (b AND 0x0F) = 0"
    using that dlc by (simp add: decode_TX_HEADER_def Let_def)
  have data: "snd (decode_TX_HEADER s b) = ?s3\<lparr>txData := [], state := TX_DATA\<rparr>
      \<and> fst (decode_TX_HEADER s b) = noFrame 0" if "?n = 4" "uint (b AND 0x0F) \<noteq> 0"
    using that dlc by (simp add: decode_TX_HEADER_def Let_def)
  have p3: "emitPost (snd (emitResult ?s3))" if "?n = 4" "uint (b AND 0x0F) = 0"
    using that m2 by (intro emitPost_emitResult) (simp_all add: nth_append)
  show "txInv (snd (decode_TX_HEADER s b))"
  proof (cases "?n = 4")
    case False
    with n m2 assms(2) other show ?thesis by (simp add: txInv_def)
  next
    case True
    show ?thesis
    proof (cases "uint (b AND 0x0F) = 0")
      case True
      with \<open>?n = 4\<close> emit show ?thesis by (simp add: txInv_def emitResult_fields)
    next
      case False
      moreover have "0 \<le> uint (b AND 0x0F)" by simp
      ultimately have "0 < uint (b AND 0x0F)" by linarith
      with \<open>?n = 4\<close> False data m2 show ?thesis
        by (simp add: txInv_def mirror_iff nth_append)
    qed
  qed
  show "f = txFrame (snd (decode_TX_HEADER s b)) \<and> emitPost (snd (decode_TX_HEADER s b))"
    if "frame (fst (decode_TX_HEADER s b)) = Some f"
  proof -
    have 4: "?n = 4"
      using that other by (cases "?n = 4") (simp_all add: noFrame_def)
    have z: "uint (b AND 0x0F) = 0"
      using that data 4 by (cases "uint (b AND 0x0F) = 0") (simp_all add: noFrame_def)
    show ?thesis
      using that emit [OF 4 z] p3 [OF 4 z]
      by (simp add: emitResult_fields txFrame_emitResult)
  qed
qed

lemma decode_TX_DATA_inv:
  assumes "txInv s" "state s = TX_DATA"
  shows "txInv (snd (decode_TX_DATA s b))"
    and "frame (fst (decode_TX_DATA s b)) = Some f \<Longrightarrow>
           f = txFrame (snd (decode_TX_DATA s b)) \<and> emitPost (snd (decode_TX_DATA s b))"
proof -
  let ?k = "length (txData s)"
  let ?s2 = "s\<lparr>registers := (registers s)(TXB0_SIDH + 5 + of_nat ?k := b), txData := txData s @ [b]\<rparr>"
  have h: "length (txHeader s) = 5" "mirror (registers s) 0x31 (txHeader s)"
    and d: "txDlc s = uint (txHeader s ! 4 AND 0x0F)" "int ?k < txDlc s"
    and md: "mirror (registers s) 0x36 (txData s)"
    using assms by (simp_all add: txInv_def)
  have "txDlc s \<le> 15"
    using d(1) nibble_bounds(2) [of "txHeader s ! 4"] by simp
  with d(2) have k: "?k < 15" by simp
  have mh2: "mirror (registers ?s2) 0x31 (txHeader ?s2)"
    using h k by (simp add: mirror_header_data_store)
  have md2: "mirror (registers ?s2) 0x36 (txData ?s2)"
    using mirror_snoc_data [OF k md] by simp
  have emit: "decode_TX_DATA s b = emitResult ?s2" if "int (Suc ?k) = txDlc s"
    using that by (simp add: decode_TX_DATA_def Let_def)
  have more: "snd (decode_TX_DATA s b) = ?s2 \<and> fst (decode_TX_DATA s b) = noFrame 0"
    if "int (Suc ?k) \<noteq> txDlc s"
    using that by (simp add: decode_TX_DATA_def Let_def)
  have post: "emitPost (snd (emitResult ?s2))" if "int (Suc ?k) = txDlc s"
    using that h d mh2 md2 by (intro emitPost_emitResult) simp_all
  show "txInv (snd (decode_TX_DATA s b))"
  proof (cases "int (Suc ?k) = txDlc s")
    case True
    then show ?thesis using emit by (simp add: txInv_def emitResult_fields)
  next
    case False
    with d(2) have "int (Suc ?k) < txDlc s" by simp
    with False more h d mh2 md2 assms(2) show ?thesis
      by (simp add: txInv_def)
  qed
  show "f = txFrame (snd (decode_TX_DATA s b)) \<and> emitPost (snd (decode_TX_DATA s b))"
    if "frame (fst (decode_TX_DATA s b)) = Some f"
  proof -
    have e: "int (Suc ?k) = txDlc s"
      using that more by (cases "int (Suc ?k) = txDlc s") (simp_all add: noFrame_def)
    show ?thesis
      using that emit [OF e] post [OF e]
      by (simp add: emitResult_fields txFrame_emitResult)
  qed
qed

lemma store_path_fields:
  "state (tryLoadNextRxFrame (updateIntPin s)) = state s"
  "txHeader (tryLoadNextRxFrame (updateIntPin s)) = txHeader s"
  by (simp_all add: tryLoad_fields updateIntPin_fields)

lemma handleInstruction_plain:
  "frame (fst (handleInstruction s b)) = None"
  "state s \<noteq> TX_DATA \<Longrightarrow> state (snd (handleInstruction s b)) \<noteq> TX_DATA"
  "state s \<noteq> TX_HEADER \<Longrightarrow> state (snd (handleInstruction s b)) \<noteq> TX_HEADER"
  by (simp_all add: handleInstruction_def noFrame_def)

lemma decode_WRITE_DATA_plain:
  "frame (fst (decode_WRITE_DATA s b)) = None"
  "state s = WRITE_DATA \<Longrightarrow> state (snd (decode_WRITE_DATA s b)) \<noteq> TX_DATA"
  "state s = WRITE_DATA \<Longrightarrow> state (snd (decode_WRITE_DATA s b)) \<noteq> TX_HEADER"
  by (simp_all add: decode_WRITE_DATA_def Let_def handleInstruction_plain noFrame_def
      store_path_fields)

lemma decode_BIT_MODIFY_DATA_plain:
  "frame (fst (decode_BIT_MODIFY_DATA s b)) = None"
  "state (snd (decode_BIT_MODIFY_DATA s b)) = IDLE"
  by (simp_all add: decode_BIT_MODIFY_DATA_def Let_def noFrame_def)

lemma no_frame_elsewhere:
  assumes "state s \<noteq> TX_HEADER" "state s \<noteq> TX_DATA"
  shows "frame (fst (decode s b)) = None"
    and "state (snd (decode s b)) \<noteq> TX_DATA"
    and "state (snd (decode s b)) = TX_HEADER \<Longrightarrow> txHeader (snd (decode s b)) = []"
proof -
  have "frame (fst (decode s b)) = None \<and> state (snd (decode s b)) \<noteq> TX_DATA
      \<and> (state (snd (decode s b)) = TX_HEADER \<longrightarrow> txHeader (snd (decode s b)) = [])"
  proof (cases "state s")
    case IDLE
    then show ?thesis by (simp add: decode_def handleInstruction_plain)
  next
    case WRITE_ADDR
    then show ?thesis by (simp add: decode_def noFrame_def)
  next
    case WRITE_DATA
    then show ?thesis by (simp add: decode_def decode_WRITE_DATA_plain)
  next
    case TX_HEADER
    then show ?thesis using assms by simp
  next
    case TX_DATA
    then show ?thesis using assms by simp
  next
    case READ_ADDR
    then show ?thesis by (simp add: decode_def noFrame_def)
  next
    case READ_DATA
    then show ?thesis by (simp add: decode_def noFrame_def handleInstruction_plain)
  next
    case BIT_MODIFY_ADDR
    then show ?thesis by (simp add: decode_def noFrame_def)
  next
    case BIT_MODIFY_MASK
    then show ?thesis by (simp add: decode_def noFrame_def)
  next
    case BIT_MODIFY_DATA
    then show ?thesis by (simp add: decode_def decode_BIT_MODIFY_DATA_plain)
  next
    case READ_STATUS_DUMMY
    then show ?thesis by (simp add: decode_def noFrame_def)
  qed
  then show "frame (fst (decode s b)) = None"
    and "state (snd (decode s b)) \<noteq> TX_DATA"
    and "state (snd (decode s b)) = TX_HEADER \<Longrightarrow> txHeader (snd (decode s b)) = []"
    by simp_all
qed

lemma txInv_decode: "txInv s \<Longrightarrow> txInv (snd (decode s b))"
proof -
  assume inv: "txInv s"
  consider "state s = TX_HEADER" | "state s = TX_DATA" | "state s \<noteq> TX_HEADER" "state s \<noteq> TX_DATA"
    by blast
  then show ?thesis
  proof cases
    case 1
    then show ?thesis using decode_TX_HEADER_inv(1) [OF inv 1] by (simp add: decode_def)
  next
    case 2
    then show ?thesis using decode_TX_DATA_inv(1) [OF inv 2] by (simp add: decode_def)
  next
    case 3
    then show ?thesis
      using no_frame_elsewhere(2,3) [OF 3, of b] by (auto simp add: txInv_def mirror_def)
  qed
qed

lemma emit_decode:
  assumes "txInv s" "frame (fst (decode s b)) = Some f"
  shows "f = txFrame (snd (decode s b)) \<and> emitPost (snd (decode s b))"
proof -
  consider "state s = TX_HEADER" | "state s = TX_DATA" | "state s \<noteq> TX_HEADER" "state s \<noteq> TX_DATA"
    by blast
  then show ?thesis
  proof cases
    case 1
    then show ?thesis using decode_TX_HEADER_inv(2) [OF assms(1) 1, of b f] assms(2) by (simp add: decode_def)
  next
    case 2
    then show ?thesis using decode_TX_DATA_inv(2) [OF assms(1) 2, of b f] assms(2) by (simp add: decode_def)
  next
    case 3
    then show ?thesis
      using no_frame_elsewhere(1) [OF 3, of b] assms(2) by simp
  qed
qed

lemma txInv_step: "txInv s \<Longrightarrow> txInv (step s op)"
  by (cases op) (simp_all add: txInv_decode txInv_queue)

lemma txInv_run: "txInv s \<Longrightarrow> txInv (run s ops)"
  unfolding run_def by (induction ops arbitrary: s) (simp_all add: txInv_step)

lemma txInv_IDLE: "state s = IDLE \<Longrightarrow> txInv s"
  by (simp add: txInv_def)

lemma emitted_after_run:
  assumes "state s0 = IDLE" and "frame (fst (decode (run s0 ops) b)) = Some f"
  shows "f = txFrame (snd (decode (run s0 ops) b))" and "emitPost (snd (decode (run s0 ops) b))"
  using emit_decode [OF txInv_run [OF txInv_IDLE [OF assms(1)]] assms(2)] by simp_all

lemma run_Decode: "run s (map Decode bs) = decodeAll s bs"
  unfolding run_def by (induction bs arbitrary: s) simp_all

text \<open>
  What does hold right after any TX frame emission, in any run from an idle engine:
  the registers 0x31..0x35 hold the five accumulated header bytes from which the
  emitted frame was decoded, and the registers from 0x36 on hold the first DLC data
  bytes of the frame. For a frame with a positive DLC these are all its data bytes.
\<close>

theorem TX_register_mirror:
  assumes "state s0 = IDLE" and "frame (fst (decode (run s0 ops) b)) = Some f"
  shows "(let s' = snd (decode (run s0 ops) b) in
            f = txFrame s'
          \<and> length (txHeader s') = 5
          \<and> map (\<lambda>i. registers s' (0x31 + of_nat i)) [0 ..< 5] = txHeader s'
          \<and> dlc f = uint (txHeader s' ! 4 AND 0x0F)
          \<and> map (\<lambda>i. registers s' (0x36 + of_nat i)) [0 ..< nat (dlc f)] = take (nat (dlc f)) (data f))"
proof -
  let ?s = "snd (decode (run s0 ops) b)"
  have f: "f = txFrame ?s" and p: "emitPost ?s"
    using emitted_after_run [OF assms] by simp_all
  have d: "dlc f = txDlc ?s" "data f = txData ?s"
    using f by (simp_all add: txFrame_def Let_def)
  have h: "length (txHeader ?s) = 5" "map (\<lambda>i. registers ?s (0x31 + of_nat i)) [0 ..< 5] = txHeader ?s"
    using p by (auto simp add: emitPost_def mirror_def)
  have n: "dlc f = uint (txHeader ?s ! 4 AND 0x0F)"
    using p d by (simp add: emitPost_def)
  have m: "map (\<lambda>i. registers ?s (0x36 + of_nat i)) [0 ..< nat (dlc f)] = take (nat (dlc f)) (data f)"
  proof (cases "txDlc ?s = 0")
    case True
    then show ?thesis using d by simp
  next
    case False
    then have l: "int (length (txData ?s)) = txDlc ?s" and md: "mirror (registers ?s) 0x36 (txData ?s)"
      using p by (auto simp add: emitPost_def)
    from l have "nat (txDlc ?s) = length (txData ?s)"
      by (metis nat_int)
    with md show ?thesis
      using d by (simp add: mirror_def)
  qed
  show ?thesis
    using f h n m by (simp add: Let_def)
qed

theorem TX_register_mirror_witness:
  "state McpDecoder_new = IDLE
   \<and> frame (fst (decode (run McpDecoder_new
        (map Decode [0x02, 0x31, 0x0E, 0x40, 0x00, 0x00, 0x46, 0x00, 0x00, 0x00, 0x01, 0x01])) 0xF4))
     = Some \<lparr> frame_id = 0x72, eid = 0, dlc = 6, data = [0x00, 0x00, 0x00, 0x01, 0x01, 0xF4] \<rparr>
   \<and> map (registers (snd (decode (run McpDecoder_new
        (map Decode [0x02, 0x31, 0x0E, 0x40, 0x00, 0x00, 0x46, 0x00, 0x00, 0x00, 0x01, 0x01])) 0xF4)))
       [0x31, 0x32, 0x33, 0x34, 0x35, 0x36, 0x37, 0x38, 0x39, 0x3A, 0x3B]
     = [0x0E, 0x40, 0x00, 0x00, 0x46, 0x00, 0x00, 0x00, 0x01, 0x01, 0xF4]"
proof -
  have 1: "state McpDecoder_new = IDLE"
    by (simp add: McpDecoder_new_def)
  have 2: "frame (fst (decode (run McpDecoder_new
        (map Decode [0x02, 0x31, 0x0E, 0x40, 0x00, 0x00, 0x46, 0x00, 0x00, 0x00, 0x01, 0x01])) 0xF4))
     = Some \<lparr> frame_id = 0x72, eid = 0, dlc = 6, data = [0x00, 0x00, 0x00, 0x01, 0x01, 0xF4] \<rparr>"
    unfolding run_Decode by code_simp
  have 3: "txHeader (snd (decode (run McpDecoder_new
        (map Decode [0x02, 0x31, 0x0E, 0x40, 0x00, 0x00, 0x46, 0x00, 0x00, 0x00, 0x01, 0x01])) 0xF4))
      = [0x0E, 0x40, 0x00, 0x00, 0x46]"
    unfolding run_Decode by code_simp
  have u: "[0 ..< 5] = [0, 1, 2, 3, 4]" "[0 ..< 6] = [0, 1, 2, 3, 4, 5]"
    by (simp_all add: upt_rec)
  show ?thesis
    using TX_register_mirror [OF 1 2] 1 2 3
    by (simp add: Let_def u)
qed

text \<open>
  Claim C2, as amended. Every CAN frame that \<open>decode\<close> returns from the TX path (in
  any run from an idle engine) has id in 0..0x7FF and eid in 0..0x3FFFF; its dlc is
  the low nibble of the fifth header byte, hence in 0..15 (it is not clamped to 8);
  and when dlc is positive the frame carries exactly dlc data bytes.
\<close>

theorem TX_frame_ranges:
  assumes "state s0 = IDLE" and "frame (fst (decode (run s0 ops) b)) = Some f"
  shows "0 \<le> frame_id f \<and> frame_id f \<le> 0x7FF
       \<and> 0 \<le> eid f \<and> eid f \<le> 0x3FFFF
       \<and> 0 \<le> dlc f \<and> dlc f \<le> 15
       \<and> dlc f = uint (txHeader (snd (decode (run s0 ops) b)) ! 4 AND 0x0F)
       \<and> (0 < dlc f \<longrightarrow> int (length (data f)) = dlc f)"
proof -
  let ?s = "snd (decode (run s0 ops) b)"
  have f: "f = txFrame ?s" and p: "emitPost ?s"
    using emitted_after_run [OF assms] by simp_all
  have d: "dlc f = txDlc ?s" "data f = txData ?s"
    using f by (simp_all add: txFrame_def Let_def)
  have n: "dlc f = uint (txHeader ?s ! 4 AND 0x0F)"
    using p d by (simp add: emitPost_def)
  have l: "0 < dlc f \<longrightarrow> int (length (data f)) = dlc f"
    using p d by (auto simp add: emitPost_def)
  have i: "0 \<le> frame_id f" "frame_id f \<le> 0x7FF"
    using txFrame_id_bounds [of ?s] f by simp_all
  have e: "0 \<le> eid f" "eid f \<le> 0x3FFFF"
    using txFrame_eid_bounds [of ?s] f by simp_all
  show ?thesis
    using i e n l nibble_bounds [of "txHeader ?s ! 4"] by simp
qed

theorem TX_frame_ranges_witness:
  "state McpDecoder_new = IDLE
   \<and> frame (fst (decode (run McpDecoder_new
        (map Decode [0x02, 0x31, 0xFF, 0xE3, 0xFF, 0xFF, 0x02, 0x11])) 0x22))
     = Some \<lparr> frame_id = 0x7FF, eid = 0x3FFFF, dlc = 2, data = [0x11, 0x22] \<rparr>
   \<and> (0x7FF :: int) \<le> 0x7FF \<and> (0x3FFFF :: int) \<le> 0x3FFFF \<and> (2 :: int) \<le> 15
   \<and> int (length [0x11, 0x22 :: 8 word]) = 2"
proof -
  have 1: "state McpDecoder_new = IDLE"
    by (simp add: McpDecoder_new_def)
  have 2: "frame (fst (decode (run McpDecoder_new
        (map Decode [0x02, 0x31, 0xFF, 0xE3, 0xFF, 0xFF, 0x02, 0x11])) 0x22))
     = Some \<lparr> frame_id = 0x7FF, eid = 0x3FFFF, dlc = 2, data = [0x11, 0x22] \<rparr>"
    unfolding run_Decode by code_simp
  show ?thesis
    using TX_frame_ranges [OF 1 2] 1 2 by simp
qed

text \<open>
  Claim C2 as stated (dlc in 0..8) fails: a fifth header byte 0x09 followed by nine
  data bytes is emitted as a frame with dlc 9.
\<close>

theorem TX_dlc_above_8_counterexample:
  "frame (fst (decode (run McpDecoder_new
        (map Decode [0x02, 0x31, 0x00, 0x00, 0x00, 0x00, 0x09, 1, 2, 3, 4, 5, 6, 7, 8])) 9))
     = Some \<lparr> frame_id = 0, eid = 0, dlc = 9, data = [1, 2, 3, 4, 5, 6, 7, 8, 9] \<rparr>
   \<and> \<not> (9 :: int) \<le> 8"
proof -
  have "frame (fst (decode (run McpDecoder_new
        (map Decode [0x02, 0x31, 0x00, 0x00, 0x00, 0x00, 0x09, 1, 2, 3, 4, 5, 6, 7, 8])) 9))
     = Some \<lparr> frame_id = 0, eid = 0, dlc = 9, data = [1, 2, 3, 4, 5, 6, 7, 8, 9] \<rparr>"
    unfolding run_Decode by code_simp
  then show ?thesis by simp
qed

text \<open>
  A frame with DLC 0 is emitted before the data accumulator is reset, so it carries
  the data bytes of the frame before it.
\<close>

lemma TX_empty_frame_keeps_old_data:
  "frame (fst (decode (run McpDecoder_new
        (map Decode [0x02, 0x31, 0x00, 0x00, 0x00, 0x00, 0x02, 0xAA, 0xBB,
                     0x02, 0x31, 0x00, 0x00, 0x00, 0x00])) 0x00))
     = Some \<lparr> frame_id = 0, eid = 0, dlc = 0, data = [0xAA, 0xBB] \<rparr>"
  unfolding run_Decode by code_simp

text \<open>
  Claim C8 says that right after any TX frame emission the registers 0x31..0x35
  equal the header bytes of the emitted frame and the registers from 0x36 on equal
  its data bytes. The code breaks this for a frame with DLC 0 that follows a frame
  with data: the host sends a frame with the data AA BB, overwrites register 0x36
  with FF, and sends a frame with DLC 0. The emitted frame has dlc 0 and still
  carries the data AA BB, while the registers 0x36 and 0x37 hold FF and BB.
\<close>

theorem TX_empty_frame_data_not_mirrored:
  "frame (fst (decode (run McpDecoder_new
        (map Decode [0x02, 0x31, 0x00, 0x00, 0x00, 0x00, 0x02, 0xAA, 0xBB,
                     0x02, 0x36, 0xFF,
                     0x02, 0x31, 0x00, 0x00, 0x00, 0x00])) 0x00))
     = Some \<lparr> frame_id = 0, eid = 0, dlc = 0, data = [0xAA, 0xBB] \<rparr>
   \<and> map (registers (snd (decode (run McpDecoder_new
        (map Decode [0x02, 0x31, 0x00, 0x00, 0x00, 0x00, 0x02, 0xAA, 0xBB,
                     0x02, 0x36, 0xFF,
                     0x02, 0x31, 0x00, 0x00, 0x00, 0x00])) 0x00))) [0x36, 0x37]
     = [0xFF, 0xBB]"
  unfolding run_Decode by code_simp

end
